theory Spec2Isabelle
  imports Complex_Main "HOL-Library.Multiset" "HOL-Library.Product_Lexorder"
begin

section \<open>Data model\<close>

text \<open>
  The scripts keep a player's game log in a pandas data frame: one row per game, with the
  columns \<^verbatim>\<open>GAME_DATE\<close>, \<^verbatim>\<open>MIN\<close> and one integer column per stat category. A frame
  is modelled as the list of its rows, in row order. Dates are day numbers (the scripts
  parse and compare whole calendar days), minutes are naturals.
\<close>

datatype category = PTS | REB | AST | TPM | STL | BLK

record game =
  game_date :: int
  minutes :: nat
  stat :: "category \<Rightarrow> int"

type_synonym frame = "game list"

text \<open>Exceptions of the source that the model keeps as values.\<close>

datatype error = ZeroDivision | KeyMissing | RequestFailed

section \<open>Threshold scanner\<close>

text \<open>
  \<^verbatim>\<open>int((df[cat] >= lvl).sum())\<close>: the number of rows whose stat reaches the level.
\<close>

definition count_hits :: "frame \<Rightarrow> category \<Rightarrow> int \<Rightarrow> nat" where
  "count_hits df cat lvl = length (filter (\<lambda>g. lvl \<le> stat g cat) df)"

text \<open>
  \<^verbatim>\<open>hits / total\<close> on Python integers: true division, which raises on a zero divisor.
  The quotient is kept exact (a rational); the source compares the rounded double with the
  double nearest the minimum, which gives the same verdict for every window shorter than
  \<open>2 ^ 50\<close> rows.
\<close>

definition true_div :: "nat \<Rightarrow> nat \<Rightarrow> error + rat" where
  "true_div h n = (if n = 0 then Inl ZeroDivision else Inr (of_nat h / of_nat n))"

text \<open>
  The loop \<^verbatim>\<open>for lvl in CATEGORIES[cat]: ... if rate >= MIN_HIT: return ...; break\<close>.
  Its body leaves the loop in the first iteration on either branch, so the second equation
  has no recursive call; a list with no level falls through to the final
  \<^verbatim>\<open>return None\<close>.
\<close>

fun scan_levels :: "rat \<Rightarrow> frame \<Rightarrow> category \<Rightarrow> int list
    \<Rightarrow> error + (int \<times> nat \<times> rat) option" where
  "scan_levels m df cat [] = Inr None"
| "scan_levels m df cat (lvl # rest) =
     (let hits = count_hits df cat lvl in
      case true_div hits (length df) of
        Inl e \<Rightarrow> Inl e
      | Inr rate \<Rightarrow> if m \<le> rate then Inr (Some (lvl, hits, rate)) else Inr None)"

text \<open>
  \<^verbatim>\<open>best_hit\<close> (phase 5) and \<^verbatim>\<open>best_line_for_category\<close> (phase 4) with the
  level list and the minimum rate as arguments.
\<close>

definition best_hit_levels :: "rat \<Rightarrow> int list \<Rightarrow> frame \<Rightarrow> category
    \<Rightarrow> error + (int \<times> nat \<times> rat) option" where
  "best_hit_levels m lvls df cat =
     (let total = length df in
      if total = 0 then Inr None else scan_levels m df cat lvls)"

definition MIN_HIT :: rat where
  "MIN_HIT = 80 / 100"

fun CATEGORIES :: "category \<Rightarrow> int list" where
  "CATEGORIES PTS = [30, 25, 20, 15, 10]"
| "CATEGORIES REB = [12, 10, 8, 6]"
| "CATEGORIES AST = [10, 8, 6, 4]"
| "CATEGORIES TPM = [4, 3, 2, 1]"
| "CATEGORIES STL = [3, 2, 1]"
| "CATEGORIES BLK = [3, 2, 1]"

definition best_hit :: "frame \<Rightarrow> category \<Rightarrow> error + (int \<times> nat \<times> rat) option" where
  "best_hit df cat = best_hit_levels MIN_HIT (CATEGORIES cat) df cat"

text \<open>Phase 4 uses the same table under the name \<^verbatim>\<open>THRESHOLDS\<close> and the same minimum.\<close>

definition best_line_for_category :: "frame \<Rightarrow> category
    \<Rightarrow> error + (int \<times> nat \<times> rat) option" where
  "best_line_for_category df stat_key = best_hit_levels (80 / 100) (CATEGORIES stat_key) df stat_key"

text \<open>
  Phase 6: \<^verbatim>\<open>best_line\<close> refuses every window shorter than \<^verbatim>\<open>NUM_GAMES\<close> and has a
  table of its own.
\<close>

definition NUM_GAMES :: nat where
  "NUM_GAMES = 10"

fun THRESHOLDS6 :: "category \<Rightarrow> int list" where
  "THRESHOLDS6 PTS = [30, 25, 20, 15, 10]"
| "THRESHOLDS6 REB = [12, 10, 8, 6, 4]"
| "THRESHOLDS6 AST = [9, 7, 5, 3]"
| "THRESHOLDS6 TPM = [4, 3, 2, 1]"
| "THRESHOLDS6 STL = [3, 2, 1]"
| "THRESHOLDS6 BLK = [3, 2, 1]"

definition best_line :: "frame \<Rightarrow> category \<Rightarrow> error + (int \<times> nat \<times> rat) option" where
  "best_line df st =
     (let total = length df in
      if total < NUM_GAMES then Inr None else scan_levels (80 / 100) df st (THRESHOLDS6 st))"

text \<open>The exact hit rate of a level on a non-empty window.\<close>

definition rate_of :: "frame \<Rightarrow> category \<Rightarrow> int \<Rightarrow> rat" where
  "rate_of df cat lvl = of_nat (count_hits df cat lvl) / of_nat (length df)"

text \<open>A window that carries only points, for the examples.\<close>

definition pts_game :: "int \<Rightarrow> int \<Rightarrow> game" where
  "pts_game d p = \<lparr>game_date = d, minutes = 30, stat = (\<lambda>c. if c = PTS then p else 0)\<rparr>"

definition spec_window :: frame where
  "spec_window = map (\<lambda>(d, p). pts_game d p)
     [(10, 30), (9, 28), (8, 25), (7, 22), (6, 20), (5, 18), (4, 15), (3, 12), (2, 10), (1, 8)]"

text \<open>
  \<^verbatim>\<open>hit_rate\<close> of the multi-player test script: the mean of the comparison column, in
  percent. The mean of an empty column is not a number, which the model returns as
  \<open>None\<close>.
\<close>

definition hit_rate :: "int list \<Rightarrow> int \<Rightarrow> rat option" where
  "hit_rate series threshold =
     (if series = [] then None
      else Some (of_nat (length (filter (\<lambda>v. threshold \<le> v) series)) / of_nat (length series) * 100))"

section \<open>Stat-window loader\<close>

text \<open>
  \<^verbatim>\<open>fetch_player_logs\<close> (phase 5) and \<^verbatim>\<open>get_player_logs\<close> (phase 4) ask the stats
  service for one season after the other. What the service answers is an argument of the
  model: one entry per season of \<^verbatim>\<open>SEASONS\<close>, in that order, \<open>None\<close> when the request
  (or the processing of its answer inside the \<^verbatim>\<open>try\<close>) raised. A season after the loop's
  \<^verbatim>\<open>break\<close> is never requested, and its entry is never read.
\<close>

type_synonym answers = "frame option list"

text \<open>\<^verbatim>\<open>part[part["MIN"] > 0]\<close>\<close>

definition played :: "frame \<Rightarrow> frame" where
  "played part = filter (\<lambda>g. 0 < minutes g) part"

text \<open>
  \<^verbatim>\<open>sort_values("GAME_DATE", ascending=False)\<close>. The model sorts stably; pandas leaves
  the order of rows with equal dates open, and no statement below depends on it.
\<close>

definition newest_first :: "frame \<Rightarrow> frame" where
  "newest_first df = sort_key (\<lambda>g. - game_date g) df"

text \<open>
  The loop over the seasons: a season that raised is skipped (\<^verbatim>\<open>except: pass\<close>), the rows
  of the others are appended, and the loop stops as soon as the frame has reached the
  lookback.
\<close>

fun gather :: "nat \<Rightarrow> frame \<Rightarrow> answers \<Rightarrow> frame" where
  "gather n df_all [] = df_all"
| "gather n df_all (a # rest) =
     (let df_all' = (case a of None \<Rightarrow> df_all | Some part \<Rightarrow> df_all @ played part)
      in if n \<le> length df_all' then df_all' else gather n df_all' rest)"

definition logs_for :: "nat \<Rightarrow> answers \<Rightarrow> frame" where
  "logs_for lookback as =
     (let df_all = gather lookback [] as in
      if df_all = [] then df_all else take lookback (newest_first df_all))"

definition LOOKBACK :: nat where
  "LOOKBACK = 10"

definition fetch_player_logs :: "answers \<Rightarrow> frame" where
  "fetch_player_logs as = logs_for LOOKBACK as"

text \<open>
  Phase 4's \<^verbatim>\<open>get_player_logs(player_id, lookback)\<close> has the same body with the lookback
  as an argument; its last step selects columns and changes no row.
\<close>

definition get_player_logs4 :: "answers \<Rightarrow> nat \<Rightarrow> frame" where
  "get_player_logs4 as lookback = logs_for lookback as"

text \<open>What the statements call the raw collection and its qualifying records.\<close>

definition delivered :: "answers \<Rightarrow> frame" where
  "delivered as = concat (map (\<lambda>a. case a of None \<Rightarrow> [] | Some part \<Rightarrow> part) as)"

definition qualifying :: "answers \<Rightarrow> frame" where
  "qualifying as = filter (\<lambda>g. minutes g \<noteq> 0) (delivered as)"

text \<open>
  The seasons are asked newest first (\<^verbatim>\<open>SEASONS = ["2025-26", "2024-25"]\<close>): no row of a
  later answer is newer than a row of an earlier one.
\<close>

fun seasons_in_order :: "answers \<Rightarrow> bool" where
  "seasons_in_order [] = True"
| "seasons_in_order (a # rest) =
     ((\<forall>g \<in> set (delivered [a]). \<forall>h \<in> set (delivered rest). game_date h \<le> game_date g)
      \<and> seasons_in_order rest)"

definition dm_game :: "int \<Rightarrow> nat \<Rightarrow> game" where
  "dm_game d m = \<lparr>game_date = d, minutes = m, stat = (\<lambda>c. 0)\<rparr>"

definition twelve_raw :: answers where
  "twelve_raw =
     [Some [dm_game 107 31, dm_game 112 28, dm_game 109 0, dm_game 111 35, dm_game 108 12],
      Some [dm_game 52 30, dm_game 58 22, dm_game 55 0, dm_game 51 18, dm_game 57 40,
            dm_game 53 25, dm_game 56 33]]"

section \<open>Clock\<close>

text \<open>
  A \<^verbatim>\<open>datetime\<close> is a count of microseconds, the resolution of Python's type; naive local
  time, as the scripts use it, on a clock whose offset to universal time does not change.
  \<^verbatim>\<open>timedelta(hours=h)\<close> is \<open>hours h\<close>, \<^verbatim>\<open>.date()\<close> is \<open>day_of\<close>, and parsing a
  \<^verbatim>\<open>%Y-%m-%d\<close> stamp gives the midnight that starts the day.
\<close>

definition hours :: "int \<Rightarrow> int" where
  "hours h = h * 3600000000"

definition day_of :: "int \<Rightarrow> int" where
  "day_of t = t div hours 24"

definition midnight :: "int \<Rightarrow> int" where
  "midnight d = d * hours 24"

section \<open>Phase 5: cache keyed by player id, stamped with a date\<close>

record cache_entry =
  updated :: int
  logs :: frame

type_synonym cache = "nat \<rightharpoonup> cache_entry"

definition CACHE_MAX_AGE_HOURS :: int where
  "CACHE_MAX_AGE_HOURS = 24"

text \<open>\<^verbatim>\<open>df["GAME_DATE"].max() if not df.empty else None\<close>\<close>

definition newest_game_date :: "frame \<Rightarrow> int option" where
  "newest_game_date df = (if df = [] then None else Some (Max (set (map game_date df))))"

text \<open>
  \<^verbatim>\<open>load_cached_logs\<close>: no file, or a stamp more than the maximal age before now, gives the
  empty frame. A stored list with no row makes a frame without columns, on which
  \<^verbatim>\<open>df["GAME_DATE"]\<close> raises.
\<close>

definition load_cached_logs :: "cache \<Rightarrow> int \<Rightarrow> nat \<Rightarrow> error + frame" where
  "load_cached_logs c now pid =
     (case c pid of
        None \<Rightarrow> Inr []
      | Some data \<Rightarrow>
          let cached_date = midnight (updated data) in
          if now - cached_date > hours CACHE_MAX_AGE_HOURS then Inr []
          else if logs data = [] then Inl KeyMissing
          else Inr (newest_first (logs data)))"

definition save_cached_logs :: "cache \<Rightarrow> int \<Rightarrow> nat \<Rightarrow> frame \<Rightarrow> cache" where
  "save_cached_logs c now pid df = c(pid \<mapsto> \<lparr>updated = day_of now, logs = df\<rparr>)"

text \<open>
  \<^verbatim>\<open>get_player_logs\<close>: the frame returned and the cache afterwards. The clock is read once
  for the whole call.
\<close>

definition get_player_logs :: "cache \<Rightarrow> int \<Rightarrow> nat \<Rightarrow> answers \<Rightarrow> error + (frame \<times> cache)" where
  "get_player_logs c now pid as =
     (case load_cached_logs c now pid of
        Inl e \<Rightarrow> Inl e
      | Inr cached \<Rightarrow>
          if cached \<noteq> [] \<and>
             (case newest_game_date cached of None \<Rightarrow> False | Some newest \<Rightarrow> day_of now \<le> newest)
          then Inr (cached, c)
          else
            let fresh = fetch_player_logs as in
            if fresh \<noteq> [] then Inr (fresh, save_cached_logs c now pid fresh)
            else Inr (fresh, c))"

text \<open>
  The two branches of \<^verbatim>\<open>get_player_logs\<close>, named for the statements: when the cached
  frame is served, and what the other branch returns.
\<close>

definition served_from_cache :: "cache \<Rightarrow> int \<Rightarrow> nat \<Rightarrow> bool" where
  "served_from_cache c now pid =
     (case c pid of
        None \<Rightarrow> False
      | Some data \<Rightarrow>
          now - midnight (updated data) \<le> hours CACHE_MAX_AGE_HOURS \<and> logs data \<noteq> [] \<and>
          day_of now \<le> Max (set (map game_date (logs data))))"

definition refetched :: "cache \<Rightarrow> int \<Rightarrow> nat \<Rightarrow> answers \<Rightarrow> frame \<times> cache" where
  "refetched c now pid as =
     (if fetch_player_logs as = [] then ([], c)
      else (fetch_player_logs as, c(pid \<mapsto> \<lparr>updated = day_of now, logs = fetch_player_logs as\<rparr>)))"

text \<open>The reading of the lookup contract with "or": either condition alone is a hit.\<close>

definition hit_by_either :: "cache \<Rightarrow> int \<Rightarrow> nat \<Rightarrow> bool" where
  "hit_by_either c now pid =
     (case c pid of
        None \<Rightarrow> False
      | Some data \<Rightarrow>
          now - midnight (updated data) < hours CACHE_MAX_AGE_HOURS \<or>
          (logs data \<noteq> [] \<and> day_of now \<le> Max (set (map game_date (logs data)))))"

text \<open>Concrete caches, times and service answers for the examples.\<close>

definition noon_100 :: int where
  "noon_100 = midnight 100 + hours 12"

definition evening_100 :: int where
  "evening_100 = midnight 100 + hours 20"

definition empty_cache :: cache where
  "empty_cache = Map.empty"

definition yesterday_cache :: cache where
  "yesterday_cache = empty_cache(7 \<mapsto> \<lparr>updated = 100, logs = [dm_game 99 30]\<rparr>)"

definition old_cache :: cache where
  "old_cache = empty_cache(7 \<mapsto> \<lparr>updated = 90, logs = [dm_game 89 30]\<rparr>)"

definition today_cache :: cache where
  "today_cache = empty_cache(7 \<mapsto> \<lparr>updated = 100, logs = [dm_game 99 30, dm_game 100 12]\<rparr>)"

definition one_new_game :: answers where
  "one_new_game = [Some [dm_game 98 25], None]"

definition nothing_delivered :: answers where
  "nothing_delivered = [Some [], None]"

section \<open>Final and parlay scripts: cache files keyed by player name\<close>

text \<open>
  The cache directory is a map from paths to files. A file has the time of its last write
  and its content, \<open>None\<close> when the text is not the JSON of a record list.
\<close>

record cache_file =
  mtime :: int
  content :: "frame option"

type_synonym files = "string \<rightharpoonup> cache_file"

definition CACHE_EXPIRY_HOURS :: int where
  "CACHE_EXPIRY_HOURS = 24"

text \<open>\<^verbatim>\<open>player_name.replace(" ", "_").replace(".", "")\<close> under the cache directory.\<close>

definition cache_path :: "string \<Rightarrow> string" where
  "cache_path player_name =
     ''cache/'' @
     filter (\<lambda>c. c \<noteq> CHR ''.'') (map (\<lambda>c. if c = CHR '' '' then CHR ''_'' else c) player_name)
     @ ''.json''"

definition is_cache_valid :: "files \<Rightarrow> int \<Rightarrow> string \<Rightarrow> bool" where
  "is_cache_valid fs now path =
     (case fs path of
        None \<Rightarrow> False
      | Some f \<Rightarrow> now - mtime f < hours CACHE_EXPIRY_HOURS)"

text \<open>\<^verbatim>\<open>save_cache\<close> writes the file at the current time (a failing write is swallowed by the
  source and not modelled); \<^verbatim>\<open>load_cache\<close> turns every failure into the empty frame.\<close>

definition save_cache :: "files \<Rightarrow> int \<Rightarrow> string \<Rightarrow> frame \<Rightarrow> files" where
  "save_cache fs now player_name df = fs(cache_path player_name \<mapsto> \<lparr>mtime = now, content = Some df\<rparr>)"

definition load_cache :: "files \<Rightarrow> string \<Rightarrow> frame" where
  "load_cache fs player_name =
     (case fs (cache_path player_name) of
        None \<Rightarrow> []
      | Some f \<Rightarrow> (case content f of None \<Rightarrow> [] | Some df \<Rightarrow> df))"

text \<open>
  \<^verbatim>\<open>get_last_n_games\<close> of the parlay script. Its collaborators are arguments: the name
  normaliser, the static player directory (full name and id), and what the stats service
  does at each attempt, for the season log and for the all-time log: a frame, or an
  exception. The retry loop runs over \<^verbatim>\<open>range(3)\<close>; a failed attempt sleeps
  \<open>attempt + 1\<close> seconds and goes on, and when the attempts are used up the function
  returns whatever \<^verbatim>\<open>load_cache\<close> gives.
\<close>

fun retry_fetch :: "(nat \<Rightarrow> error + frame) \<Rightarrow> (nat \<Rightarrow> error + frame) \<Rightarrow> files \<Rightarrow> int
    \<Rightarrow> string \<Rightarrow> nat \<Rightarrow> nat list \<Rightarrow> frame \<times> files" where
  "retry_fetch season_log all_time fs now player_name num_games [] =
     (load_cache fs player_name, fs)"
| "retry_fetch season_log all_time fs now player_name num_games (attempt # later) =
     (case season_log attempt of
        Inl e \<Rightarrow>
          retry_fetch season_log all_time fs (now + 1000000 * (int attempt + 1)) player_name
            num_games later
      | Inr rows \<Rightarrow>
          let rows' = (if length rows < num_games
                       then (case all_time attempt of Inl e \<Rightarrow> rows | Inr longer \<Rightarrow> longer)
                       else rows)
          in (take num_games rows', save_cache fs now player_name rows'))"

definition get_last_n_games :: "(string \<Rightarrow> string) \<Rightarrow> (string \<times> nat) list
    \<Rightarrow> (nat \<Rightarrow> nat \<Rightarrow> error + frame) \<Rightarrow> (nat \<Rightarrow> nat \<Rightarrow> error + frame)
    \<Rightarrow> files \<Rightarrow> int \<Rightarrow> string \<Rightarrow> nat \<Rightarrow> frame \<times> files" where
  "get_last_n_games normalize_name all_players season_log all_time fs now player_name num_games =
     (let path = cache_path player_name in
      if is_cache_valid fs now path then (take num_games (load_cache fs player_name), fs)
      else
        (case find (\<lambda>p. normalize_name (fst p) = normalize_name player_name) all_players of
           None \<Rightarrow> ([], fs)
         | Some match \<Rightarrow>
             retry_fetch (season_log (snd match)) (all_time (snd match)) fs now player_name
               num_games [0, 1, 2]))"

definition no_files :: files where
  "no_files = Map.empty"

definition stale_files :: files where
  "stale_files = no_files(cache_path ''LeBron James'' \<mapsto> \<lparr>mtime = midnight 90, content = Some [dm_game 89 30]\<rparr>)"

definition as_written :: "string \<Rightarrow> string" where
  "as_written n = n"

definition one_player :: "(string \<times> nat) list" where
  "one_player = [(''LeBron James'', 2544)]"

definition always_fails :: "nat \<Rightarrow> nat \<Rightarrow> error + frame" where
  "always_fails player_id attempt = Inl RequestFailed"

section \<open>Odds line selection\<close>

text \<open>
  The odds lookup is a dictionary from (player, market, point, side) to a price; it is
  modelled as the list of its items in insertion order. Points and decimal odds are exact
  rationals.
\<close>

record quote =
  american :: int
  decimal :: rat
  book :: string

type_synonym odds_key = "string \<times> string \<times> rat \<times> string"

type_synonym odds_table = "(odds_key \<times> quote) list"

text \<open>The dictionary the selection returns; the three price fields are kept together.\<close>

record pick =
  point :: rat
  price :: quote
  used_market :: string

definition MARKET_FOR_STAT :: "string \<rightharpoonup> string \<times> string" where
  "MARKET_FOR_STAT =
     [''points'' \<mapsto> (''player_points'', ''player_points_alt''),
      ''rebounds'' \<mapsto> (''player_rebounds'', ''player_rebounds_alt''),
      ''assists'' \<mapsto> (''player_assists'', ''player_assists_alt''),
      ''threes'' \<mapsto> (''player_three_points'', ''player_three_points_alt'')]"

definition stat_to_markets :: "string \<Rightarrow> string option \<times> string option" where
  "stat_to_markets stat_label =
     (case MARKET_FOR_STAT stat_label of
        None \<Rightarrow> (None, None)
      | Some (std_key, alt_key) \<Rightarrow> (Some std_key, Some alt_key))"

definition threshold_to_over_point :: "int \<Rightarrow> rat" where
  "threshold_to_over_point threshold = of_int threshold - 1 / 2"

text \<open>Python's \<^verbatim>\<open>int\<close> of a float: rounding towards zero.\<close>

definition py_int :: "rat \<Rightarrow> int" where
  "py_int q = (if 0 \<le> q then \<lfloor>q\<rfloor> else \<lceil>q\<rceil>)"

text \<open>
  The comprehension \<^verbatim>\<open>[(pt, val) for (pk, mk, pt, side), val in odds_lookup.items()
  if pk == pkey and mk == key and side == "over"]\<close>.
\<close>

definition over_lines :: "odds_table \<Rightarrow> string \<Rightarrow> string \<Rightarrow> (rat \<times> quote) list" where
  "over_lines odds_lookup pkey key =
     map (\<lambda>((pk, mk, pt, side), val). (pt, val))
       (filter (\<lambda>((pk, mk, pt, side), val). pk = pkey \<and> mk = key \<and> side = ''over'') odds_lookup)"

text \<open>
  \<^verbatim>\<open>pick_highest_alt_or_best_standard\<close>. Python's sort is stable, also with
  \<^verbatim>\<open>reverse=True\<close>, so the descending sort by point is the stable sort by the negated
  point; a key that is a tuple is compared lexicographically.
\<close>

definition pick_highest_alt_or_best_standard :: "(string \<Rightarrow> string) \<Rightarrow> string \<Rightarrow> string
    \<Rightarrow> int \<Rightarrow> odds_table \<Rightarrow> string set \<Rightarrow> pick option" where
  "pick_highest_alt_or_best_standard normalize_name player stat_label threshold odds_lookup
      returned_markets =
     (let pkey = normalize_name player;
          (std_key, alt_key) = stat_to_markets stat_label;
          best =
            (case alt_key of
               None \<Rightarrow> None
             | Some ak \<Rightarrow>
                 if ak \<noteq> [] \<and> ak \<in> returned_markets then
                   (let alts = over_lines odds_lookup pkey ak in
                    if alts \<noteq> [] then
                      (let (pt, val) = hd (sort_key (\<lambda>x. - fst x) alts) in
                       Some \<lparr>point = of_int (py_int pt), price = val, used_market = ak\<rparr>)
                    else None)
                 else None)
      in case best of
           Some b \<Rightarrow> Some b
         | None \<Rightarrow>
             (case std_key of
                None \<Rightarrow> None
              | Some sk \<Rightarrow>
                  if sk \<noteq> [] \<and> sk \<in> returned_markets then
                    (let target_point = threshold_to_over_point threshold;
                         stds = over_lines odds_lookup pkey sk in
                     if stds \<noteq> [] then
                       (let (pt, val) =
                          hd (sort_key (\<lambda>x. (\<bar>fst x - target_point\<bar>,
                                if fst x \<le> target_point then 0 else (1::nat))) stds)
                        in Some \<lparr>point = pt, price = val, used_market = sk\<rparr>)
                     else None)
                  else None))"

text \<open>
  \<^verbatim>\<open>fetch_fanduel_player_props_today\<close> adds a market to \<^verbatim>\<open>returned_markets\<close> whenever it
  has stored a line under that market (\<^verbatim>\<open>got_any\<close>), so the two values it returns
  together always satisfy the following.
\<close>

definition registered :: "odds_table \<Rightarrow> string set \<Rightarrow> bool" where
  "registered odds_lookup returned_markets =
     list_all (\<lambda>((pk, mk, pt, side), val). mk \<in> returned_markets) odds_lookup"

text \<open>An odds lookup for the examples: one player with three alternate and three standard
  lines on points and standard lines only on rebounds, and a second player with two
  standard lines on rebounds.\<close>

definition fd :: "int \<Rightarrow> rat \<Rightarrow> quote" where
  "fd a d = \<lparr>american = a, decimal = d, book = ''FanDuel''\<rparr>"

definition sample_odds :: odds_table where
  "sample_odds =
     [((''lebron james'', ''player_points'', 24.5, ''over''), fd (-110) (21 / 11)),
      ((''lebron james'', ''player_points_alt'', 20, ''over''), fd (-250) (7 / 5)),
      ((''lebron james'', ''player_points_alt'', 30, ''over''), fd 180 (14 / 5)),
      ((''lebron james'', ''player_points_alt'', 25, ''over''), fd (-120) (11 / 6)),
      ((''lebron james'', ''player_rebounds'', 6.5, ''over''), fd (-130) (23 / 13)),
      ((''lebron james'', ''player_rebounds'', 8.5, ''over''), fd 120 (11 / 5)),
      ((''lebron james'', ''player_rebounds'', 7.5, ''over''), fd (-105) (41 / 21)),
      ((''stephen curry'', ''player_rebounds'', 8.5, ''over''), fd 240 (17 / 5)),
      ((''stephen curry'', ''player_rebounds'', 6.5, ''over''), fd (-115) (43 / 23))]"

definition sample_markets :: "string set" where
  "sample_markets = {''player_points'', ''player_points_alt'', ''player_rebounds''}"

definition half_alt_odds :: odds_table where
  "half_alt_odds =
     [((''lebron james'', ''player_points_alt'', 24.5, ''over''), fd (-110) (21 / 11))]"

section \<open>Scanner: basic facts\<close>

lemma true_div_pos: "0 < n \<Longrightarrow> true_div h n = Inr (of_nat h / of_nat n)"
  by (simp add: true_div_def)

lemma scan_levels_Cons:
  "df \<noteq> [] \<Longrightarrow> scan_levels m df cat (t # ts) =
     (if m \<le> rate_of df cat t then Inr (Some (t, count_hits df cat t, rate_of df cat t))
      else Inr None)"
  by (simp add: true_div_pos rate_of_def Let_def)

lemma best_hit_levels_Cons:
  "df \<noteq> [] \<Longrightarrow> best_hit_levels m (t # ts) df cat =
     (if m \<le> rate_of df cat t then Inr (Some (t, count_hits df cat t, rate_of df cat t))
      else Inr None)"
  unfolding best_hit_levels_def Let_def using scan_levels_Cons [of df m cat t ts] by simp

lemma count_hits_antimono: "t2 \<le> t1 \<Longrightarrow> count_hits df cat t1 \<le> count_hits df cat t2"
  unfolding count_hits_def
proof (induction df)
  case Nil
  show ?case by simp
next
  case (Cons g df)
  then show ?case by auto
qed

lemma count_hits_card:
  "count_hits df cat lvl = card {i. i < length df \<and> lvl \<le> stat (df ! i) cat}"
  unfolding count_hits_def by (rule length_filter_conv_card)

lemma reached_antimono:
  "(t2::int) \<le> t1 \<Longrightarrow> length (filter (\<lambda>v. t1 \<le> v) xs) \<le> length (filter (\<lambda>v. t2 \<le> v) xs)"
  by (induction xs) auto

lemma rate_of_antimono: "t2 \<le> t1 \<Longrightarrow> rate_of df cat t1 \<le> rate_of df cat t2"
  unfolding rate_of_def using count_hits_antimono [of t2 t1 df cat]
  by (simp add: divide_right_mono)

lemma count_hits_spec_window:
  "count_hits spec_window PTS 30 = 1" "count_hits spec_window PTS 10 = 9"
  "count_hits spec_window PTS 20 = 5" "length spec_window = 10"
  by (simp_all add: count_hits_def spec_window_def pts_game_def)

section \<open>Scanner: the claims\<close>

text \<open>
  C1. Stop on first miss: on a non-empty window, when the first level of the list misses the
  minimum rate the scanner returns no result, whatever levels follow; the result of the scan
  is that of the one-level list holding the first level only, so no later level takes part
  in it, even one that meets the minimum.
\<close>

theorem C1_stop_on_first_miss:
  assumes "df \<noteq> []" and "rate_of df cat t < m"
  shows "best_hit_levels m (t # ts) df cat = Inr None
    \<and> best_hit_levels m (t # ts) df cat = best_hit_levels m [t] df cat"
  using assms by (simp add: best_hit_levels_Cons)

theorem C1_stop_on_first_miss_witness:
  "spec_window \<noteq> [] \<and> rate_of spec_window PTS 30 < MIN_HIT
   \<and> MIN_HIT \<le> rate_of spec_window PTS 10
   \<and> best_hit spec_window PTS = Inr None
   \<and> best_hit_levels MIN_HIT [30, 25, 20, 15, 10] spec_window PTS
       = best_hit_levels MIN_HIT [30] spec_window PTS"
proof -
  have ne: "spec_window \<noteq> []" by (simp add: spec_window_def)
  have miss: "rate_of spec_window PTS 30 < MIN_HIT"
    by (simp add: rate_of_def count_hits_spec_window MIN_HIT_def)
  have low: "MIN_HIT \<le> rate_of spec_window PTS 10"
    by (simp add: rate_of_def count_hits_spec_window MIN_HIT_def)
  from C1_stop_on_first_miss [OF ne miss, of "[25, 20, 15, 10]"] ne miss low
  show ?thesis unfolding best_hit_def CATEGORIES.simps by blast
qed

text \<open>
  C2. With the levels in descending order, a result \<open>(t, h, r)\<close> of the scanner is a
  level of the list, \<open>h\<close> is the number of positions of the window whose game has a value
  of at least \<open>t\<close>, \<open>r\<close> is \<open>h\<close> divided by the size of the window, which is not
  empty, \<open>r\<close> meets the minimum rate, and no level of the list whose number of such
  games divided by the size of the window meets the minimum is higher than \<open>t\<close>. The
  count is stated on the window itself, not through the scanner's counter.
\<close>

theorem C2_returned_level_is_highest_qualifying:
  assumes "sorted_wrt (\<lambda>a b. b \<le> a) lvls"
    and "best_hit_levels m lvls df cat = Inr (Some (t, h, r))"
  shows "df \<noteq> [] \<and> t \<in> set lvls
    \<and> h = card {i. i < length df \<and> t \<le> stat (df ! i) cat}
    \<and> r = of_nat h / of_nat (length df)
    \<and> m \<le> r
    \<and> (\<forall>u \<in> set lvls.
          m \<le> of_nat (card {i. i < length df \<and> u \<le> stat (df ! i) cat}) / of_nat (length df)
          \<longrightarrow> u \<le> t)"
proof -
  have ne: "df \<noteq> []"
    using assms(2) by (auto simp: best_hit_levels_def)
  obtain l ls where lvls: "lvls = l # ls"
    using assms(2) ne by (cases lvls) (auto simp: best_hit_levels_def)
  have res: "m \<le> rate_of df cat l \<and> t = l \<and> h = count_hits df cat l \<and> r = rate_of df cat l"
    using assms(2) ne unfolding lvls by (auto simp: best_hit_levels_Cons split: if_splits)
  have top: "\<forall>u \<in> set lvls. u \<le> l"
    using assms(1) unfolding lvls by auto
  have h: "h = card {i. i < length df \<and> t \<le> stat (df ! i) cat}"
    using res by (simp add: count_hits_card)
  have r: "r = of_nat h / of_nat (length df)"
    using res by (simp add: rate_of_def)
  have mr: "m \<le> r" using res by simp
  have hi: "\<forall>u \<in> set lvls.
          m \<le> of_nat (card {i. i < length df \<and> u \<le> stat (df ! i) cat}) / of_nat (length df)
          \<longrightarrow> u \<le> t"
    using top res by simp
  have mem: "t \<in> set lvls" using res lvls by simp
  from ne mem h r mr hi show ?thesis by blast
qed

theorem C2_returned_level_witness:
  "sorted_wrt (\<lambda>a b. b \<le> a) [10, 5 :: int]
   \<and> best_hit_levels MIN_HIT [10, 5] spec_window PTS = Inr (Some (10, 9, 9 / 10))
   \<and> 9 = card {i. i < length spec_window \<and> 10 \<le> stat (spec_window ! i) PTS}
   \<and> MIN_HIT \<le> 9 / 10"
proof -
  have s: "sorted_wrt (\<lambda>a b. b \<le> a) [10, 5 :: int]" by simp
  have ne: "spec_window \<noteq> []" by (simp add: spec_window_def)
  have b: "best_hit_levels MIN_HIT [10, 5] spec_window PTS = Inr (Some (10, 9, 9 / 10))"
    by (simp add: best_hit_levels_Cons [OF ne] rate_of_def count_hits_spec_window MIN_HIT_def)
  from C2_returned_level_is_highest_qualifying [OF s b]
  have c: "9 = card {i. i < length spec_window \<and> 10 \<le> stat (spec_window ! i) PTS}"
    by blast
  have m: "MIN_HIT \<le> 9 / 10" by (simp add: MIN_HIT_def)
  from s b c m show ?thesis by blast
qed

text \<open>
  C8. On the empty window the scanner returns no result, and no error: \<^verbatim>\<open>best_hit\<close>,
  \<^verbatim>\<open>best_line_for_category\<close> and \<^verbatim>\<open>best_line\<close> all return before the division, for
  every category, level list and minimum rate.
\<close>

theorem C8_empty_window_no_result:
  "best_hit [] cat = Inr None \<and> best_line_for_category [] cat = Inr None
   \<and> best_line [] cat = Inr None \<and> best_hit_levels m lvls [] cat = Inr None"
  by (simp add: best_hit_def best_line_for_category_def best_line_def best_hit_levels_def
      NUM_GAMES_def)

text \<open>
  C10. On a fixed window and category the hit count and the hit rate are antitone in the
  level: a level that is at least another has at most its hits and its rate (also for the
  percentage \<^verbatim>\<open>hit_rate\<close> on a non-empty column). Hence in a descending list whose
  first level meets the minimum rate, every later level meets it too.
\<close>

theorem C10_hits_antitone:
  "(t2 \<le> t1 \<longrightarrow> count_hits df cat t1 \<le> count_hits df cat t2
      \<and> rate_of df cat t1 \<le> rate_of df cat t2)
   \<and> (t2 \<le> t1 \<and> series \<noteq> [] \<longrightarrow>
        (\<exists>r1 r2. hit_rate series t1 = Some r1 \<and> hit_rate series t2 = Some r2 \<and> r1 \<le> r2))
   \<and> (sorted_wrt (\<lambda>a b. b \<le> a) (t # ts) \<and> m \<le> rate_of df cat t
      \<longrightarrow> (\<forall>u \<in> set ts. m \<le> rate_of df cat u))"
proof (intro conjI impI ballI)
  assume "t2 \<le> t1"
  then show "count_hits df cat t1 \<le> count_hits df cat t2" by (rule count_hits_antimono)
next
  assume "t2 \<le> t1"
  then show "rate_of df cat t1 \<le> rate_of df cat t2" by (rule rate_of_antimono)
next
  assume a: "t2 \<le> t1 \<and> series \<noteq> []"
  then have "length (filter (\<lambda>v. t1 \<le> v) series) \<le> length (filter (\<lambda>v. t2 \<le> v) series)"
    by (simp add: reached_antimono)
  then have "(of_nat (length (filter (\<lambda>v. t1 \<le> v) series)) :: rat) / of_nat (length series) * 100
      \<le> of_nat (length (filter (\<lambda>v. t2 \<le> v) series)) / of_nat (length series) * 100"
    by (simp add: divide_right_mono)
  with a show "\<exists>r1 r2. hit_rate series t1 = Some r1 \<and> hit_rate series t2 = Some r2 \<and> r1 \<le> r2"
    by (simp add: hit_rate_def)
next
  fix u
  assume a: "sorted_wrt (\<lambda>a b. b \<le> a) (t # ts) \<and> m \<le> rate_of df cat t" and u: "u \<in> set ts"
  then have "u \<le> t" by auto
  then have "rate_of df cat t \<le> rate_of df cat u" by (rule rate_of_antimono)
  with a show "m \<le> rate_of df cat u" by simp
qed

theorem C10_hits_antitone_witness:
  "(20::int) \<le> 30 \<and> count_hits spec_window PTS 30 \<le> count_hits spec_window PTS 20
   \<and> rate_of spec_window PTS 30 \<le> rate_of spec_window PTS 20
   \<and> (\<exists>r1 r2. hit_rate [8, 25, 31] 30 = Some r1 \<and> hit_rate [8, 25, 31] 20 = Some r2 \<and> r1 \<le> r2)
   \<and> sorted_wrt (\<lambda>a b. b \<le> a) [10, 9, 8 :: int] \<and> MIN_HIT \<le> rate_of spec_window PTS 10
   \<and> MIN_HIT \<le> rate_of spec_window PTS 9 \<and> MIN_HIT \<le> rate_of spec_window PTS 8"
proof -
  have s: "sorted_wrt (\<lambda>a b. b \<le> a) [10, 9, 8 :: int]" by simp
  have r: "MIN_HIT \<le> rate_of spec_window PTS 10"
    by (simp add: rate_of_def count_hits_spec_window MIN_HIT_def)
  from C10_hits_antitone [of 20 30 spec_window PTS "[8, 25, 31]" 10 "[9, 8]" MIN_HIT] s r
  show ?thesis by simp
qed

section \<open>Loader: facts and claim\<close>

lemma played_rows: "played part = filter (\<lambda>g. minutes g \<noteq> 0) part"
  by (simp add: played_def)

lemma played_concat:
  "qualifying as = concat (map (\<lambda>a. case a of None \<Rightarrow> [] | Some part \<Rightarrow> played part) as)"
  unfolding qualifying_def delivered_def played_rows
  by (induction as) (auto split: option.splits)

lemma qualifying_Cons:
  "qualifying (a # rest) = (case a of None \<Rightarrow> [] | Some part \<Rightarrow> played part) @ qualifying rest"
  by (simp add: played_concat)

lemma qualifying_append: "qualifying (xs @ ys) = qualifying xs @ qualifying ys"
  by (simp add: played_concat)

lemma qualifying_split: "qualifying as = qualifying (take k as) @ qualifying (drop k as)"
  using qualifying_append [of "take k as" "drop k as"] by simp

lemma gather_all:
  "length acc + length (qualifying as) \<le> n \<Longrightarrow> gather n acc as = acc @ qualifying as"
proof (induction as arbitrary: acc)
  case Nil
  show ?case by (simp add: played_concat)
next
  case (Cons a rest)
  define rows where "rows = (case a of None \<Rightarrow> [] | Some part \<Rightarrow> played part)"
  have q: "qualifying (a # rest) = rows @ qualifying rest"
    by (simp add: qualifying_Cons rows_def)
  have step: "gather n acc (a # rest) =
      (if n \<le> length (acc @ rows) then acc @ rows else gather n (acc @ rows) rest)"
    by (simp add: rows_def Let_def split: option.splits)
  show ?case
  proof (cases "n \<le> length (acc @ rows)")
    case True
    have l: "length acc + (length rows + length (qualifying rest)) \<le> n"
      using Cons.prems q by simp
    have "qualifying rest = []"
    proof (rule ccontr)
      assume "qualifying rest \<noteq> []"
      then have "0 < length (qualifying rest)" by simp
      with l True show False by simp
    qed
    with True step q show ?thesis by simp
  next
    case False
    have "length (acc @ rows) + length (qualifying rest) \<le> n"
      using Cons.prems q by simp
    from Cons.IH [OF this] False step q show ?thesis by simp
  qed
qed

text \<open>
  Where the loop stops: after the first \<open>k\<close> answers, \<open>k\<close> the least number of answers
  (at least one) that hold the lookback, or all of them.
\<close>

lemma gather_stops:
  "\<exists>k \<le> length as. gather n acc as = acc @ qualifying (take k as)
     \<and> (k = length as \<or> n \<le> length (acc @ qualifying (take k as)))
     \<and> (\<forall>j. 0 < j \<and> j < k \<longrightarrow> length (acc @ qualifying (take j as)) < n)"
proof (induction as arbitrary: acc)
  case Nil
  show ?case by (simp add: played_concat)
next
  case (Cons a rest)
  define rows where "rows = (case a of None \<Rightarrow> [] | Some part \<Rightarrow> played part)"
  have q: "\<And>j. qualifying (take (Suc j) (a # rest)) = rows @ qualifying (take j rest)"
    by (simp add: qualifying_Cons rows_def)
  have q0: "qualifying (take 0 (a # rest)) = []" by (simp add: played_concat)
  have step: "gather n acc (a # rest) =
      (if n \<le> length (acc @ rows) then acc @ rows else gather n (acc @ rows) rest)"
    by (simp add: rows_def Let_def split: option.splits)
  show ?case
  proof (cases "n \<le> length (acc @ rows)")
    case True
    have e: "qualifying (take (Suc 0) (a # rest)) = rows"
      using q [of 0] by (simp add: played_concat)
    have "Suc 0 \<le> length (a # rest)
       \<and> gather n acc (a # rest) = acc @ qualifying (take (Suc 0) (a # rest))
       \<and> (Suc 0 = length (a # rest) \<or> n \<le> length (acc @ qualifying (take (Suc 0) (a # rest))))
       \<and> (\<forall>j. 0 < j \<and> j < Suc 0 \<longrightarrow> length (acc @ qualifying (take j (a # rest))) < n)"
      unfolding e using True step by simp
    then show ?thesis by blast
  next
    case False
    from Cons.IH [of "acc @ rows"] obtain k where k: "k \<le> length rest"
      and g: "gather n (acc @ rows) rest = (acc @ rows) @ qualifying (take k rest)"
      and s: "k = length rest \<or> n \<le> length ((acc @ rows) @ qualifying (take k rest))"
      and b: "\<forall>j. 0 < j \<and> j < k \<longrightarrow> length ((acc @ rows) @ qualifying (take j rest)) < n"
      by blast
    have b': "\<forall>j. 0 < j \<and> j < Suc k \<longrightarrow> length (acc @ qualifying (take j (a # rest))) < n"
    proof (intro allI impI)
      fix j assume j: "0 < j \<and> j < Suc k"
      then obtain i where i: "j = Suc i" by (cases j) auto
      show "length (acc @ qualifying (take j (a # rest))) < n"
      proof (cases "i = 0")
        case True
        then show ?thesis unfolding i q using False by (simp add: played_concat)
      next
        case False
        with j i have "0 < i \<and> i < k" by simp
        with b have "length ((acc @ rows) @ qualifying (take i rest)) < n" by blast
        then show ?thesis unfolding i q by simp
      qed
    qed
    have "Suc k \<le> length (a # rest)
       \<and> gather n acc (a # rest) = acc @ qualifying (take (Suc k) (a # rest))
       \<and> (Suc k = length (a # rest) \<or> n \<le> length (acc @ qualifying (take (Suc k) (a # rest))))
       \<and> (\<forall>j. 0 < j \<and> j < Suc k \<longrightarrow> length (acc @ qualifying (take j (a # rest))) < n)"
      unfolding q using k g s b' False step by auto
    then show ?thesis by blast
  qed
qed

lemma newest_first_sorted: "sorted_wrt (\<lambda>a b. game_date b \<le> game_date a) (newest_first df)"
proof -
  have "sorted (map (\<lambda>g. - game_date g) (newest_first df))"
    unfolding newest_first_def by (rule sorted_sort_key)
  then show ?thesis by (simp add: sorted_map)
qed

lemma logs_for_take: "logs_for n as = take n (newest_first (gather n [] as))"
  by (simp add: logs_for_def Let_def newest_first_def)

lemma logs_for_sorted: "sorted_wrt (\<lambda>a b. game_date b \<le> game_date a) (logs_for n as)"
  unfolding logs_for_take using sorted_wrt_take [OF newest_first_sorted] by simp

lemma logs_for_length: "length (logs_for n as) \<le> n"
  by (simp add: logs_for_take)

lemma logs_for_all:
  assumes "length (qualifying as) \<le> n"
  shows "logs_for n as = newest_first (qualifying as)"
proof -
  have g: "gather n [] as = qualifying as" using gather_all [of "[]" as n] assms by simp
  show ?thesis unfolding logs_for_take g using assms by (simp add: newest_first_def)
qed

text \<open>The first rows of a list sorted newest first, against the rows left out.\<close>

lemma take_newest:
  "mset (take n (newest_first G)) \<subseteq># mset G
   \<and> (\<forall>g \<in># mset G - mset (take n (newest_first G)).
        \<forall>w \<in> set (take n (newest_first G)). game_date g \<le> game_date w)"
proof -
  define S where "S = newest_first G"
  have m: "mset S = mset G" by (simp add: S_def newest_first_def)
  have split: "mset S = mset (take n S) + mset (drop n S)"
    by (metis append_take_drop_id mset_append)
  have sub: "mset (take n S) \<subseteq># mset G" using split m by (metis mset_subset_eq_add_left)
  have rest: "mset G - mset (take n S) = mset (drop n S)" using split m by simp
  have "sorted_wrt (\<lambda>a b. game_date b \<le> game_date a) (take n S @ drop n S)"
    using newest_first_sorted [of G] by (simp add: S_def)
  then have "\<forall>w \<in> set (take n S). \<forall>g \<in> set (drop n S). game_date g \<le> game_date w"
    unfolding sorted_wrt_append by blast
  then show ?thesis using sub rest unfolding S_def by auto
qed

lemma in_order_split:
  "seasons_in_order as \<Longrightarrow>
   \<forall>g \<in> set (delivered (take k as)). \<forall>h \<in> set (delivered (drop k as)). game_date h \<le> game_date g"
proof (induction as arbitrary: k)
  case Nil
  show ?case by (simp add: delivered_def)
next
  case (Cons a rest)
  show ?case
  proof (cases k)
    case 0
    show ?thesis unfolding 0 by (simp add: delivered_def)
  next
    case (Suc i)
    have d: "delivered (take (Suc i) (a # rest)) = delivered [a] @ delivered (take i rest)"
      by (simp add: delivered_def)
    have sub: "set (delivered (drop i rest)) \<subseteq> set (delivered rest)"
      unfolding delivered_def using set_drop_subset [of i rest] by auto
    from Cons.prems have
      h: "\<forall>g \<in> set (delivered [a]). \<forall>h \<in> set (delivered rest). game_date h \<le> game_date g"
      and r: "seasons_in_order rest" by simp_all
    from Cons.IH [OF r, of i] h sub show ?thesis unfolding Suc d by auto
  qed
qed

lemma qualifying_delivered: "set (qualifying as) \<subseteq> set (delivered as)"
  by (auto simp: qualifying_def)

lemma length_qualifying:
  "length (qualifying as) + length (filter (\<lambda>g. minutes g = 0) (delivered as)) = length (delivered as)"
  unfolding qualifying_def
  using sum_length_filter_compl [of "\<lambda>g. minutes g = 0" "delivered as"] by simp

text \<open>
  The window against the rows the loop has gathered, which are the rows with minutes of
  the first \<open>k\<close> answers.
\<close>

lemma logs_for_window:
  "\<exists>k \<le> length as.
      (k = length as \<or> n \<le> length (qualifying (take k as)))
    \<and> (\<forall>j. 0 < j \<and> j < k \<longrightarrow> length (qualifying (take j as)) < n)
    \<and> length (logs_for n as) = min n (length (qualifying (take k as)))
    \<and> mset (logs_for n as) \<subseteq># mset (qualifying (take k as))
    \<and> (\<forall>g \<in># mset (qualifying (take k as)) - mset (logs_for n as).
         \<forall>w \<in> set (logs_for n as). game_date g \<le> game_date w)"
proof -
  from gather_stops [of as n "[]"] obtain k where k: "k \<le> length as"
    and g: "gather n [] as = qualifying (take k as)"
    and s: "k = length as \<or> n \<le> length (qualifying (take k as))"
    and b: "\<forall>j. 0 < j \<and> j < k \<longrightarrow> length (qualifying (take j as)) < n"
    by auto
  have w: "logs_for n as = take n (newest_first (qualifying (take k as)))"
    unfolding logs_for_take g ..
  have l: "length (logs_for n as) = min n (length (qualifying (take k as)))"
    unfolding w by (simp add: newest_first_def min.commute)
  from take_newest [of n "qualifying (take k as)"] k s b l show ?thesis
    unfolding w by blast
qed

text \<open>
  C3. Whatever the seasons deliver (in any order, over any number of seasons), the loader
  (\<^verbatim>\<open>fetch_player_logs\<close> with the lookback 10, phase 4's \<^verbatim>\<open>get_player_logs\<close> with its
  argument) returns at most \<open>n\<close> rows, sorted by date with the newest first, each of them a
  delivered row with minutes played, and none more often than it was delivered. When fewer
  than \<open>n\<close> rows with minutes exist, it returns all of them, and nothing in the function
  raises; when \<open>n\<close> or more exist, it returns exactly \<open>n\<close>. From 12 delivered rows of
  which 2 have no minutes, with a lookback of 10, it returns exactly the 10 others, newest
  first. The rows are the newest ones: the loop reads the answers up to the first that
  completes the lookback, the window holds as many of their rows with minutes as the
  lookback allows, and no row of theirs that is left out is newer than a row of the
  window; when the seasons are asked newest first, the same holds of every delivered row
  with minutes that is left out.
\<close>

theorem C3_window_loader:
  "fetch_player_logs as = logs_for LOOKBACK as \<and> get_player_logs4 as n = logs_for n as
   \<and> length (logs_for n as) \<le> n
   \<and> sorted_wrt (\<lambda>a b. game_date b \<le> game_date a) (logs_for n as)
   \<and> (\<forall>g \<in> set (logs_for n as). minutes g \<noteq> 0 \<and> g \<in> set (delivered as))
   \<and> (length (qualifying as) < n \<longrightarrow> mset (logs_for n as) = mset (qualifying as))
   \<and> (length (delivered as) = 12 \<and> length (filter (\<lambda>g. minutes g = 0) (delivered as)) = 2 \<longrightarrow>
        length (logs_for 10 as) = 10 \<and> mset (logs_for 10 as) = mset (qualifying as)
        \<and> logs_for 10 as = newest_first (qualifying as))
   \<and> (n \<le> length (qualifying as) \<longrightarrow> length (logs_for n as) = n)
   \<and> mset (logs_for n as) \<subseteq># mset (qualifying as)
   \<and> (\<exists>k \<le> length as.
          (k = length as \<or> n \<le> length (qualifying (take k as)))
        \<and> (\<forall>j. 0 < j \<and> j < k \<longrightarrow> length (qualifying (take j as)) < n)
        \<and> length (logs_for n as) = min n (length (qualifying (take k as)))
        \<and> mset (logs_for n as) \<subseteq># mset (qualifying (take k as))
        \<and> (\<forall>g \<in># mset (qualifying (take k as)) - mset (logs_for n as).
             \<forall>w \<in> set (logs_for n as). game_date g \<le> game_date w))
   \<and> (seasons_in_order as \<longrightarrow>
        (\<forall>g \<in># mset (qualifying as) - mset (logs_for n as).
           \<forall>w \<in> set (logs_for n as). game_date g \<le> game_date w))"
proof -
  from logs_for_window [of as n] obtain k where k: "k \<le> length as"
    and s: "k = length as \<or> n \<le> length (qualifying (take k as))"
    and b: "\<forall>j. 0 < j \<and> j < k \<longrightarrow> length (qualifying (take j as)) < n"
    and l: "length (logs_for n as) = min n (length (qualifying (take k as)))"
    and sub: "mset (logs_for n as) \<subseteq># mset (qualifying (take k as))"
    and old: "\<forall>g \<in># mset (qualifying (take k as)) - mset (logs_for n as).
         \<forall>w \<in> set (logs_for n as). game_date g \<le> game_date w"
    by blast
  have q: "qualifying as = qualifying (take k as) @ qualifying (drop k as)"
    by (rule qualifying_split)
  have c1: "fetch_player_logs as = logs_for LOOKBACK as" by (simp add: fetch_player_logs_def)
  have c2: "get_player_logs4 as n = logs_for n as" by (simp add: get_player_logs4_def)
  have c3: "length (logs_for n as) \<le> n" by (rule logs_for_length)
  have c4: "sorted_wrt (\<lambda>a b. game_date b \<le> game_date a) (logs_for n as)"
    by (rule logs_for_sorted)
  have c9: "mset (logs_for n as) \<subseteq># mset (qualifying as)"
  proof -
    have "mset (qualifying as) = mset (qualifying (take k as)) + mset (qualifying (drop k as))"
      using q by (metis mset_append)
    then have "mset (qualifying (take k as)) \<subseteq># mset (qualifying as)"
      by (metis mset_subset_eq_add_left)
    with sub show ?thesis by (rule subset_mset.order_trans)
  qed
  have c5: "\<forall>g \<in> set (logs_for n as). minutes g \<noteq> 0 \<and> g \<in> set (delivered as)"
  proof
    fix g assume "g \<in> set (logs_for n as)"
    then have "g \<in># mset (logs_for n as)" by simp
    with c9 have "g \<in># mset (qualifying as)" by (rule mset_subset_eqD)
    then have "g \<in> set (qualifying as)" by simp
    then show "minutes g \<noteq> 0 \<and> g \<in> set (delivered as)" by (simp add: qualifying_def)
  qed
  have c6: "length (qualifying as) < n \<longrightarrow> mset (logs_for n as) = mset (qualifying as)"
    by (simp add: logs_for_all newest_first_def)
  have c7: "length (delivered as) = 12 \<and> length (filter (\<lambda>g. minutes g = 0) (delivered as)) = 2 \<longrightarrow>
        length (logs_for 10 as) = 10 \<and> mset (logs_for 10 as) = mset (qualifying as)
        \<and> logs_for 10 as = newest_first (qualifying as)"
  proof
    assume a: "length (delivered as) = 12 \<and> length (filter (\<lambda>g. minutes g = 0) (delivered as)) = 2"
    with length_qualifying [of as] have ten: "length (qualifying as) = 10" by simp
    then have eq: "logs_for 10 as = newest_first (qualifying as)" by (simp add: logs_for_all)
    show "length (logs_for 10 as) = 10 \<and> mset (logs_for 10 as) = mset (qualifying as)
        \<and> logs_for 10 as = newest_first (qualifying as)"
      using eq ten by (simp add: newest_first_def)
  qed
  have c8: "n \<le> length (qualifying as) \<longrightarrow> length (logs_for n as) = n"
  proof
    assume n: "n \<le> length (qualifying as)"
    from s show "length (logs_for n as) = n"
    proof
      assume "k = length as"
      then show ?thesis using l n by simp
    next
      assume "n \<le> length (qualifying (take k as))"
      then show ?thesis using l by simp
    qed
  qed
  have c11: "seasons_in_order as \<longrightarrow>
        (\<forall>g \<in># mset (qualifying as) - mset (logs_for n as).
           \<forall>w \<in> set (logs_for n as). game_date g \<le> game_date w)"
  proof (intro impI ballI)
    fix g w
    assume o: "seasons_in_order as"
      and g: "g \<in># mset (qualifying as) - mset (logs_for n as)"
      and w: "w \<in> set (logs_for n as)"
    have "mset (qualifying as) = mset (qualifying (take k as)) + mset (qualifying (drop k as))"
      using q by (metis mset_append)
    then have "mset (qualifying as) - mset (logs_for n as)
        = (mset (qualifying (take k as)) - mset (logs_for n as)) + mset (qualifying (drop k as))"
      using sub by (simp add: subset_mset.add_diff_assoc2)
    with g have "g \<in># mset (qualifying (take k as)) - mset (logs_for n as)
        \<or> g \<in> set (qualifying (drop k as))" by auto
    then show "game_date g \<le> game_date w"
    proof
      assume "g \<in># mset (qualifying (take k as)) - mset (logs_for n as)"
      with old w show ?thesis by blast
    next
      assume "g \<in> set (qualifying (drop k as))"
      then have gd: "g \<in> set (delivered (drop k as))" using qualifying_delivered by blast
      from w have "w \<in># mset (logs_for n as)" by simp
      with sub have "w \<in># mset (qualifying (take k as))" by (rule mset_subset_eqD)
      then have "w \<in> set (delivered (take k as))" using qualifying_delivered by auto
      with in_order_split [OF o, of k] gd show ?thesis by blast
    qed
  qed
  from k s b l sub old
  have c10: "\<exists>k \<le> length as.
          (k = length as \<or> n \<le> length (qualifying (take k as)))
        \<and> (\<forall>j. 0 < j \<and> j < k \<longrightarrow> length (qualifying (take j as)) < n)
        \<and> length (logs_for n as) = min n (length (qualifying (take k as)))
        \<and> mset (logs_for n as) \<subseteq># mset (qualifying (take k as))
        \<and> (\<forall>g \<in># mset (qualifying (take k as)) - mset (logs_for n as).
             \<forall>w \<in> set (logs_for n as). game_date g \<le> game_date w)"
    by blast
  from c1 c2 c3 c4 c5 c6 c7 c8 c9 c10 c11 show ?thesis by blast
qed

lemma twelve_raw_facts:
  "length (delivered twelve_raw) = 12"
  "length (filter (\<lambda>g. minutes g = 0) (delivered twelve_raw)) = 2"
  "length (qualifying twelve_raw) = 10"
  "seasons_in_order twelve_raw"
  by (simp_all add: twelve_raw_def delivered_def qualifying_def dm_game_def)

lemma twelve_raw_window:
  "fetch_player_logs twelve_raw =
     [dm_game 112 28, dm_game 111 35, dm_game 108 12, dm_game 107 31, dm_game 58 22,
      dm_game 57 40, dm_game 56 33, dm_game 53 25, dm_game 52 30, dm_game 51 18]"
  "logs_for 3 twelve_raw = [dm_game 112 28, dm_game 111 35, dm_game 108 12]"
  by (simp_all add: fetch_player_logs_def LOOKBACK_def logs_for_def twelve_raw_def played_def
      newest_first_def dm_game_def Let_def)

theorem C3_window_loader_witness:
  "length (delivered twelve_raw) = 12
   \<and> length (filter (\<lambda>g. minutes g = 0) (delivered twelve_raw)) = 2
   \<and> length (fetch_player_logs twelve_raw) = 10
   \<and> map game_date (fetch_player_logs twelve_raw) = [112, 111, 108, 107, 58, 57, 56, 53, 52, 51]
   \<and> list_all (\<lambda>g. minutes g \<noteq> 0) (fetch_player_logs twelve_raw)
   \<and> mset (fetch_player_logs twelve_raw) = mset (qualifying twelve_raw)
   \<and> length (qualifying twelve_raw) < 11
   \<and> mset (logs_for 11 twelve_raw) = mset (qualifying twelve_raw)
   \<and> 3 \<le> length (qualifying twelve_raw)
   \<and> seasons_in_order twelve_raw
   \<and> length (logs_for 3 twelve_raw) = 3
   \<and> map game_date (logs_for 3 twelve_raw) = [112, 111, 108]
   \<and> list_all (\<lambda>g. game_date g \<le> 108)
        (filter (\<lambda>g. g \<notin> set (logs_for 3 twelve_raw)) (qualifying twelve_raw))"
proof -
  have d: "map game_date (fetch_player_logs twelve_raw) = [112, 111, 108, 107, 58, 57, 56, 53, 52, 51]"
    "map game_date (logs_for 3 twelve_raw) = [112, 111, 108]"
    by (simp_all add: twelve_raw_window dm_game_def)
  have left: "list_all (\<lambda>g. game_date g \<le> 108)
        (filter (\<lambda>g. g \<notin> set (logs_for 3 twelve_raw)) (qualifying twelve_raw))"
    unfolding twelve_raw_window(2)
    by (simp add: twelve_raw_def qualifying_def delivered_def dm_game_def)
  from C3_window_loader [where n = 3 and as = twelve_raw] twelve_raw_facts
  have three: "length (logs_for 3 twelve_raw) = 3" by simp
  from C3_window_loader [where n = 10 and as = twelve_raw]
    C3_window_loader [where n = 11 and as = twelve_raw] twelve_raw_facts d three left
  show ?thesis by (simp add: fetch_player_logs_def LOOKBACK_def list_all_iff)
qed

section \<open>Cache: facts and claims\<close>

lemma hours_24_pos: "0 < hours 24" "hours 1 < hours 24" "hours 23 < hours 24" "hours 24 < hours 25"
  by (simp_all add: hours_def)

lemma hours_arith: "hours 25 = hours 24 + hours 1" "hours 23 = hours 24 - hours 1"
  by (simp_all add: hours_def)

lemma since_midnight: "T - midnight (day_of T) = T mod hours 24"
  unfolding midnight_def day_of_def by (simp add: minus_div_mult_eq_mod)

lemma load_after_save:
  "df \<noteq> [] \<Longrightarrow> load_cached_logs (save_cached_logs c T pid df) t pid =
     (if t - midnight (day_of T) \<le> hours 24 then Inr (newest_first df) else Inr [])"
  by (simp add: load_cached_logs_def save_cached_logs_def CACHE_MAX_AGE_HOURS_def Let_def)

lemma served_iff:
  "served_from_cache c now pid =
     (\<exists>data. c pid = Some data \<and> now - midnight (updated data) \<le> hours 24 \<and> logs data \<noteq> []
        \<and> day_of now \<le> Max (set (map game_date (logs data))))"
  by (simp add: served_from_cache_def CACHE_MAX_AGE_HOURS_def split: option.splits)

lemma set_newest_first: "set (newest_first df) = set df" "(newest_first df = []) = (df = [])"
   apply (simp add: newest_first_def)
  by (metis newest_first_def length_0_conv length_sort)

lemma get_served:
  assumes "c pid = Some data" and "served_from_cache c now pid"
  shows "get_player_logs c now pid as = Inr (newest_first (logs data), c)"
proof -
  from assms have f: "now - midnight (updated data) \<le> hours 24" and ne: "logs data \<noteq> []"
    and d: "day_of now \<le> Max (set (map game_date (logs data)))"
    by (simp_all add: served_iff)
  have l: "load_cached_logs c now pid = Inr (newest_first (logs data))"
    using assms(1) f ne by (simp add: load_cached_logs_def CACHE_MAX_AGE_HOURS_def Let_def)
  have m: "set (map game_date (newest_first (logs data))) = set (map game_date (logs data))"
    by (simp add: set_newest_first)
  show ?thesis
    unfolding get_player_logs_def l using ne d
    by (simp add: newest_game_date_def set_newest_first m del: set_map)
qed

lemma get_refetched:
  assumes "\<not> served_from_cache c now pid" and "\<forall>data. c pid = Some data \<longrightarrow> logs data \<noteq> []"
  shows "get_player_logs c now pid as = Inr (refetched c now pid as)"
proof (cases "c pid")
  case None
  then show ?thesis
    by (simp add: get_player_logs_def load_cached_logs_def refetched_def save_cached_logs_def Let_def)
next
  case (Some data)
  with assms(2) have ne: "logs data \<noteq> []" by simp
  have m: "set (map game_date (newest_first (logs data))) = set (map game_date (logs data))"
    by (simp add: set_newest_first)
  show ?thesis
  proof (cases "now - midnight (updated data) \<le> hours 24")
    case True
    then have l: "load_cached_logs c now pid = Inr (newest_first (logs data))"
      using Some ne by (simp add: load_cached_logs_def CACHE_MAX_AGE_HOURS_def Let_def)
    from assms(1) Some True ne have "\<not> day_of now \<le> Max (set (map game_date (logs data)))"
      by (simp add: served_iff)
    then show ?thesis unfolding get_player_logs_def l
      by (simp add: newest_game_date_def set_newest_first m refetched_def save_cached_logs_def
          Let_def del: set_map)
  next
    case False
    then have l: "load_cached_logs c now pid = Inr []"
      using Some by (simp add: load_cached_logs_def CACHE_MAX_AGE_HOURS_def Let_def)
    show ?thesis unfolding get_player_logs_def l
      by (simp add: refetched_def save_cached_logs_def Let_def)
  qed
qed

lemma clock_examples:
  "day_of noon_100 = 100" "noon_100 - midnight 100 = hours 12" "noon_100 - midnight 90 = hours 252"
  "day_of evening_100 = 100" "evening_100 - midnight 100 = hours 20"
  by (simp_all add: noon_100_def evening_100_def day_of_def midnight_def hours_def)

lemma fetch_examples:
  "fetch_player_logs one_new_game = [dm_game 98 25]"
  "fetch_player_logs nothing_delivered = []"
  by (simp_all add: fetch_player_logs_def logs_for_def one_new_game_def nothing_delivered_def
      played_def dm_game_def newest_first_def LOOKBACK_def Let_def)

lemma served_examples:
  "\<not> served_from_cache yesterday_cache noon_100 7"
  "\<not> served_from_cache old_cache noon_100 7"
  "\<not> served_from_cache empty_cache noon_100 7"
  "served_from_cache today_cache noon_100 7"
  by (simp_all add: served_from_cache_def yesterday_cache_def old_cache_def today_cache_def
      empty_cache_def clock_examples dm_game_def CACHE_MAX_AGE_HOURS_def hours_def)

lemma entries_have_rows:
  "\<forall>data. yesterday_cache 7 = Some data \<longrightarrow> logs data \<noteq> []"
  "\<forall>data. old_cache 7 = Some data \<longrightarrow> logs data \<noteq> []"
  "\<forall>data. empty_cache 7 = Some data \<longrightarrow> logs data \<noteq> []"
  by (auto simp: yesterday_cache_def old_cache_def empty_cache_def)

text \<open>
  C4, as stated, fails. An entry stamped today (twelve hours old, below the expiry) whose
  newest game is yesterday's satisfies the first condition of the contract, yet
  \<^verbatim>\<open>get_player_logs\<close> does not return it: it fetches, returns the fetched rows and
  overwrites the entry.
\<close>

theorem C4_either_condition_counterexample:
  "hit_by_either yesterday_cache noon_100 7
   \<and> get_player_logs yesterday_cache noon_100 7 one_new_game
       = Inr ([dm_game 98 25], save_cached_logs yesterday_cache noon_100 7 [dm_game 98 25])
   \<and> get_player_logs yesterday_cache noon_100 7 one_new_game
       \<noteq> Inr ([dm_game 99 30], yesterday_cache)"
proof -
  have h: "hit_by_either yesterday_cache noon_100 7"
    by (simp add: hit_by_either_def yesterday_cache_def empty_cache_def clock_examples
        CACHE_MAX_AGE_HOURS_def hours_def)
  have g: "get_player_logs yesterday_cache noon_100 7 one_new_game
       = Inr ([dm_game 98 25], save_cached_logs yesterday_cache noon_100 7 [dm_game 98 25])"
    using get_refetched [OF served_examples(1) entries_have_rows(1), of one_new_game]
    by (simp add: refetched_def fetch_examples save_cached_logs_def)
  have "dm_game 98 25 \<noteq> dm_game 99 30" by (simp add: dm_game_def)
  with h g show ?thesis by simp
qed

text \<open>
  C4, amended. \<^verbatim>\<open>get_player_logs\<close> returns the cached record set (sorted newest first,
  cache untouched) exactly when an entry exists for the player, its date stamp lies at most
  the maximal age before now, and the newest cached game date is today or later: both
  conditions are needed. In every other case (for an entry that holds rows, as every entry
  written by the script does) the call is a miss and returns what the fetch branch gives.
\<close>

theorem C4_cache_lookup_needs_both:
  "served_from_cache c now pid =
     (\<exists>data. c pid = Some data \<and> now - midnight (updated data) \<le> hours CACHE_MAX_AGE_HOURS
        \<and> logs data \<noteq> [] \<and> day_of now \<le> Max (set (map game_date (logs data))))
   \<and> (\<forall>data. c pid = Some data \<and> served_from_cache c now pid \<longrightarrow>
        get_player_logs c now pid as = Inr (newest_first (logs data), c))
   \<and> (\<not> served_from_cache c now pid \<and> (\<forall>data. c pid = Some data \<longrightarrow> logs data \<noteq> []) \<longrightarrow>
        get_player_logs c now pid as = Inr (refetched c now pid as))"
proof (intro conjI allI impI)
  show "served_from_cache c now pid =
     (\<exists>data. c pid = Some data \<and> now - midnight (updated data) \<le> hours CACHE_MAX_AGE_HOURS
        \<and> logs data \<noteq> [] \<and> day_of now \<le> Max (set (map game_date (logs data))))"
    by (simp add: served_iff CACHE_MAX_AGE_HOURS_def)
next
  fix data assume "c pid = Some data \<and> served_from_cache c now pid"
  then show "get_player_logs c now pid as = Inr (newest_first (logs data), c)"
    using get_served by blast
next
  assume "\<not> served_from_cache c now pid \<and> (\<forall>data. c pid = Some data \<longrightarrow> logs data \<noteq> [])"
  then show "get_player_logs c now pid as = Inr (refetched c now pid as)"
    using get_refetched by blast
qed

theorem C4_cache_lookup_witness:
  "served_from_cache today_cache noon_100 7
   \<and> get_player_logs today_cache noon_100 7 one_new_game
       = Inr ([dm_game 100 12, dm_game 99 30], today_cache)
   \<and> \<not> served_from_cache old_cache noon_100 7
   \<and> get_player_logs old_cache noon_100 7 one_new_game
       = Inr ([dm_game 98 25], old_cache(7 \<mapsto> \<lparr>updated = 100, logs = [dm_game 98 25]\<rparr>))"
proof -
  have t: "today_cache 7 = Some \<lparr>updated = 100, logs = [dm_game 99 30, dm_game 100 12]\<rparr>"
    by (simp add: today_cache_def)
  have n: "newest_first [dm_game 99 30, dm_game 100 12] = [dm_game 100 12, dm_game 99 30]"
    by (simp add: newest_first_def dm_game_def)
  from C4_cache_lookup_needs_both [of today_cache noon_100 7 one_new_game]
    C4_cache_lookup_needs_both [of old_cache noon_100 7 one_new_game]
    served_examples entries_have_rows t n
  show ?thesis by (simp add: refetched_def fetch_examples clock_examples)
qed

text \<open>
  C5, as stated, fails for the date-stamped cache of phase 5. An entry written at 20:00 on
  day 100 is consulted 23 hours later: the stamp records only the day, the age is counted
  from its midnight, and \<^verbatim>\<open>load_cached_logs\<close> answers with the empty frame.
\<close>

theorem C5_date_stamp_counterexample:
  "load_cached_logs (save_cached_logs empty_cache evening_100 7 [dm_game 99 30])
     (evening_100 + hours 23) 7 = Inr []
   \<and> newest_first [dm_game 99 30] \<noteq> []"
proof -
  have ne: "[dm_game 99 30] \<noteq> []" by simp
  have "\<not> evening_100 + hours 23 - midnight (day_of evening_100) \<le> hours 24"
    by (simp add: evening_100_def day_of_def midnight_def hours_def)
  then show ?thesis using load_after_save [OF ne] by (simp add: newest_first_def)
qed

text \<open>
  C5, amended. A file written by \<^verbatim>\<open>save_cache\<close> at time \<open>T\<close> is valid for
  \<^verbatim>\<open>is_cache_valid\<close> at \<open>T\<close> + 23h and stale at \<open>T\<close> + 25h, whatever the time of day
  of \<open>T\<close>. An entry written by phase 5's \<^verbatim>\<open>save_cached_logs\<close> at \<open>T\<close> is stale at
  \<open>T\<close> + 25h for every \<open>T\<close>, and at \<open>T\<close> + 23h it is valid exactly when \<open>T\<close> lies at
  most one hour after the midnight of its day.
\<close>

theorem C5_expiry_by_stamp_kind:
  "is_cache_valid (save_cache fs T name df) (T + hours 23) (cache_path name)
   \<and> \<not> is_cache_valid (save_cache fs T name df) (T + hours 25) (cache_path name)
   \<and> (df \<noteq> [] \<longrightarrow>
        load_cached_logs (save_cached_logs c T pid df) (T + hours 25) pid = Inr []
        \<and> load_cached_logs (save_cached_logs c T pid df) (T + hours 23) pid
            = (if T - midnight (day_of T) \<le> hours 1 then Inr (newest_first df) else Inr []))"
proof (intro conjI impI)
  show "is_cache_valid (save_cache fs T name df) (T + hours 23) (cache_path name)"
    by (simp add: is_cache_valid_def save_cache_def CACHE_EXPIRY_HOURS_def hours_24_pos)
  show "\<not> is_cache_valid (save_cache fs T name df) (T + hours 25) (cache_path name)"
    using hours_24_pos(4)
    by (simp add: is_cache_valid_def save_cache_def CACHE_EXPIRY_HOURS_def)
next
  assume ne: "df \<noteq> []"
  have m: "0 \<le> T mod hours 24" using hours_24_pos(1) by simp
  have "\<not> T + hours 25 - midnight (day_of T) \<le> hours 24"
    using m since_midnight [of T] hours_arith hours_24_pos by linarith
  then show "load_cached_logs (save_cached_logs c T pid df) (T + hours 25) pid = Inr []"
    using load_after_save [OF ne] by simp
  have "(T + hours 23 - midnight (day_of T) \<le> hours 24) = (T - midnight (day_of T) \<le> hours 1)"
    using hours_arith by linarith
  then show "load_cached_logs (save_cached_logs c T pid df) (T + hours 23) pid
            = (if T - midnight (day_of T) \<le> hours 1 then Inr (newest_first df) else Inr [])"
    using load_after_save [OF ne] by simp
qed

theorem C5_expiry_witness:
  "[dm_game 99 30] \<noteq> []
   \<and> is_cache_valid (save_cache no_files evening_100 ''A. Davis'' [dm_game 99 30])
       (evening_100 + hours 23) (cache_path ''A. Davis'')
   \<and> \<not> is_cache_valid (save_cache no_files evening_100 ''A. Davis'' [dm_game 99 30])
       (evening_100 + hours 25) (cache_path ''A. Davis'')
   \<and> load_cached_logs (save_cached_logs empty_cache (midnight 100) 7 [dm_game 99 30])
       (midnight 100 + hours 23) 7 = Inr [dm_game 99 30]
   \<and> load_cached_logs (save_cached_logs empty_cache (midnight 100) 7 [dm_game 99 30])
       (midnight 100 + hours 25) 7 = Inr []"
proof -
  have ne: "[dm_game 99 30] \<noteq> []" by simp
  have z: "midnight 100 - midnight (day_of (midnight 100)) \<le> hours 1"
    by (simp add: day_of_def midnight_def hours_def)
  from C5_expiry_by_stamp_kind [of no_files evening_100 "''A. Davis''" "[dm_game 99 30]"
      empty_cache 7] ne
    C5_expiry_by_stamp_kind [of no_files "midnight 100" "''A. Davis''" "[dm_game 99 30]"
      empty_cache 7] z
  show ?thesis by (simp add: newest_first_def)
qed

text \<open>
  C6, as stated, fails. On a miss whose fetch delivers no row, nothing is written: an old
  entry keeps its old stamp (day 90, consulted on day 100), and a player without an entry
  still has none.
\<close>

theorem C6_empty_fetch_counterexample:
  "\<not> served_from_cache old_cache noon_100 7
   \<and> fetch_player_logs nothing_delivered = []
   \<and> get_player_logs old_cache noon_100 7 nothing_delivered = Inr ([], old_cache)
   \<and> map_option updated (old_cache 7) = Some 90
   \<and> day_of noon_100 = 100
   \<and> get_player_logs empty_cache noon_100 7 nothing_delivered = Inr ([], empty_cache)
   \<and> empty_cache 7 = None"
proof -
  have a: "get_player_logs old_cache noon_100 7 nothing_delivered = Inr ([], old_cache)"
    using get_refetched [OF served_examples(2) entries_have_rows(2), of nothing_delivered]
    by (simp add: refetched_def fetch_examples)
  have b: "get_player_logs empty_cache noon_100 7 nothing_delivered = Inr ([], empty_cache)"
    using get_refetched [OF served_examples(3) entries_have_rows(3), of nothing_delivered]
    by (simp add: refetched_def fetch_examples)
  show ?thesis using a b served_examples(2) fetch_examples(2) clock_examples(1)
    by (simp add: old_cache_def empty_cache_def)
qed

text \<open>
  C6, amended. On a miss, \<^verbatim>\<open>get_player_logs\<close> returns the fetch result, and writes it
  back under today's date stamp when it holds at least one row; an empty fetch result
  leaves the cache as it was.
\<close>

theorem C6_write_back_of_rows:
  assumes "\<not> served_from_cache c now pid"
    and "\<forall>data. c pid = Some data \<longrightarrow> logs data \<noteq> []"
  shows "get_player_logs c now pid as =
           Inr (fetch_player_logs as,
                if fetch_player_logs as = [] then c
                else c(pid \<mapsto> \<lparr>updated = day_of now, logs = fetch_player_logs as\<rparr>))"
  using get_refetched [OF assms, of as] by (simp add: refetched_def)

theorem C6_write_back_witness:
  "\<not> served_from_cache old_cache noon_100 7
   \<and> old_cache 7 = Some \<lparr>updated = 90, logs = [dm_game 89 30]\<rparr>
   \<and> get_player_logs old_cache noon_100 7 one_new_game
       = Inr ([dm_game 98 25], old_cache(7 \<mapsto> \<lparr>updated = 100, logs = [dm_game 98 25]\<rparr>))"
proof -
  have e: "old_cache 7 = Some \<lparr>updated = 90, logs = [dm_game 89 30]\<rparr>"
    by (simp add: old_cache_def)
  from C6_write_back_of_rows [OF served_examples(2) entries_have_rows(2), of one_new_game]
    served_examples(2) e
  show ?thesis by (simp add: fetch_examples clock_examples)
qed

section \<open>Fetch failure: facts and claim\<close>

lemma retry_fetch_all_fail:
  "\<forall>k \<in> set ks. \<exists>e. season_log k = Inl e \<Longrightarrow>
   retry_fetch season_log all_time fs now name num ks = (load_cache fs name, fs)"
proof (induction ks arbitrary: now)
  case Nil
  show ?case by simp
next
  case (Cons k ks)
  from Cons.prems obtain e where e: "season_log k = Inl e" by auto
  from Cons.prems have "\<forall>k \<in> set ks. \<exists>e. season_log k = Inl e" by simp
  from Cons.IH [OF this] e show ?case by simp
qed

text \<open>
  C7. For a player of the directory whose cache file is missing or stale, when each of the
  three attempts raises, \<^verbatim>\<open>get_last_n_games\<close> returns what \<^verbatim>\<open>load_cache\<close> reads and
  leaves the files as they are: the cached frame when a file with a record list exists, stale
  as it is, and the empty frame when there is no file. Every exception of an attempt is
  caught inside the loop, so the function returns a frame in both cases.
\<close>

theorem C7_fetch_failure_degrades:
  assumes "\<not> is_cache_valid fs now (cache_path name)"
    and "find (\<lambda>p. nrm (fst p) = nrm name) directory = Some match"
    and "\<forall>k < 3. \<exists>e. season_log (snd match) k = Inl e"
  shows "get_last_n_games nrm directory season_log all_time fs now name num = (load_cache fs name, fs)
    \<and> (fs (cache_path name) = None \<longrightarrow>
         fst (get_last_n_games nrm directory season_log all_time fs now name num) = [])
    \<and> (\<forall>f df. fs (cache_path name) = Some f \<and> content f = Some df \<longrightarrow>
         fst (get_last_n_games nrm directory season_log all_time fs now name num) = df)"
proof -
  have "\<forall>k \<in> set [0, 1, 2 :: nat]. \<exists>e. season_log (snd match) k = Inl e"
    using assms(3) by simp
  from retry_fetch_all_fail [OF this]
  have g: "get_last_n_games nrm directory season_log all_time fs now name num = (load_cache fs name, fs)"
    using assms(1,2) by (simp add: get_last_n_games_def)
  show ?thesis unfolding g by (auto simp: load_cache_def)
qed

theorem C7_fetch_failure_witness:
  "\<not> is_cache_valid stale_files noon_100 (cache_path ''LeBron James'')
   \<and> get_last_n_games as_written one_player always_fails always_fails stale_files noon_100
        ''LeBron James'' 20 = ([dm_game 89 30], stale_files)
   \<and> \<not> is_cache_valid no_files noon_100 (cache_path ''LeBron James'')
   \<and> get_last_n_games as_written one_player always_fails always_fails no_files noon_100
        ''LeBron James'' 20 = ([], no_files)"
proof -
  have s: "\<not> is_cache_valid stale_files noon_100 (cache_path ''LeBron James'')"
    by (simp add: is_cache_valid_def stale_files_def noon_100_def midnight_def hours_def
        CACHE_EXPIRY_HOURS_def)
  have n: "\<not> is_cache_valid no_files noon_100 (cache_path ''LeBron James'')"
    by (simp add: is_cache_valid_def no_files_def)
  have f: "find (\<lambda>p. as_written (fst p) = as_written ''LeBron James'') one_player
      = Some (''LeBron James'', 2544)"
    by (simp add: one_player_def as_written_def)
  have a: "\<forall>k < 3. \<exists>e. always_fails (snd (''LeBron James'', 2544 :: nat)) k = Inl e"
    by (simp add: always_fails_def)
  note C7_fetch_failure_degrades [where nrm = as_written and directory = one_player
      and match = "(''LeBron James'', 2544)" and season_log = always_fails
      and all_time = always_fails and now = noon_100 and name = "''LeBron James''" and num = 20]
  from this [of stale_files, OF s f a] this [of no_files, OF n f a] s n
  show ?thesis by (simp add: load_cache_def stale_files_def no_files_def)
qed

section \<open>Odds line selection: facts and claim\<close>

lemma hd_sort_key_least:
  assumes "xs \<noteq> []"
  shows "hd (sort_key f xs) \<in> set xs \<and> (\<forall>x \<in> set xs. f (hd (sort_key f xs)) \<le> f x)"
proof -
  have "length (sort_key f xs) = length xs" by simp
  with assms obtain y ys where ys: "sort_key f xs = y # ys"
    by (cases "sort_key f xs") auto
  have "sorted (map f (sort_key f xs))" by (rule sorted_sort_key)
  then have le: "\<forall>z \<in> set ys. f y \<le> f z" unfolding ys by simp
  have s: "set xs = insert y (set ys)"
    using set_sort [of f xs] unfolding ys by simp
  show ?thesis unfolding ys s using le by simp
qed

lemma market_keys_nonempty:
  assumes "stat_to_markets stat_label = (Some sk, Some ak)"
  shows "sk \<noteq> [] \<and> ak \<noteq> []"
  using assms unfolding stat_to_markets_def MARKET_FOR_STAT_def
  by (auto split: option.splits if_splits)

lemma registered_over_lines:
  assumes "registered tbl returned" and "over_lines tbl pkey key \<noteq> []"
  shows "key \<in> returned"
  using assms unfolding registered_def over_lines_def
  by (fastforce simp: filter_empty_conv list_all_iff split: prod.splits)

lemma pick_alt:
  assumes mk: "stat_to_markets stat_label = (Some sk, Some ak)"
    and ret: "ak \<in> returned"
    and ne: "over_lines tbl (nrm player) ak \<noteq> []"
  shows "pick_highest_alt_or_best_standard nrm player stat_label threshold tbl returned =
     Some \<lparr>point = of_int (py_int (fst (hd (sort_key (\<lambda>x. - fst x) (over_lines tbl (nrm player) ak))))),
           price = snd (hd (sort_key (\<lambda>x. - fst x) (over_lines tbl (nrm player) ak))),
           used_market = ak\<rparr>"
  using market_keys_nonempty [OF mk] ret ne
  unfolding pick_highest_alt_or_best_standard_def mk
  by (simp add: Let_def split: prod.splits)

lemma pick_std:
  assumes mk: "stat_to_markets stat_label = (Some sk, Some ak)"
    and noalt: "ak \<notin> returned \<or> over_lines tbl (nrm player) ak = []"
    and ret: "sk \<in> returned"
    and ne: "over_lines tbl (nrm player) sk \<noteq> []"
  shows "pick_highest_alt_or_best_standard nrm player stat_label threshold tbl returned =
     Some \<lparr>point = fst (hd (sort_key (\<lambda>x. (\<bar>fst x - threshold_to_over_point threshold\<bar>,
                if fst x \<le> threshold_to_over_point threshold then 0 else (1::nat)))
                (over_lines tbl (nrm player) sk))),
           price = snd (hd (sort_key (\<lambda>x. (\<bar>fst x - threshold_to_over_point threshold\<bar>,
                if fst x \<le> threshold_to_over_point threshold then 0 else (1::nat)))
                (over_lines tbl (nrm player) sk))),
           used_market = sk\<rparr>"
  using market_keys_nonempty [OF mk] noalt ret ne
  unfolding pick_highest_alt_or_best_standard_def mk
  by (auto simp: Let_def split: prod.splits)

lemma py_int_whole: "q \<in> \<int> \<Longrightarrow> of_int (py_int q) = q"
  by (auto simp: py_int_def elim: Ints_cases)

lemma over_lines_iff:
  "((pt, val) \<in> set (over_lines tbl pkey key)) = (((pkey, key, pt, ''over''), val) \<in> set tbl)"
  unfolding over_lines_def by force

lemma over_lines_empty:
  "(over_lines tbl pkey key \<noteq> []) = (\<exists>pt val. ((pkey, key, pt, ''over''), val) \<in> set tbl)"
proof -
  have "(over_lines tbl pkey key \<noteq> []) = (\<exists>x. x \<in> set (over_lines tbl pkey key))"
    by (cases "over_lines tbl pkey key") auto
  also have "\<dots> = (\<exists>pt val. (pt, val) \<in> set (over_lines tbl pkey key))" by auto
  finally show ?thesis by (simp add: over_lines_iff)
qed

lemma sample_lines:
  "over_lines sample_odds (as_written ''lebron james'') ''player_points_alt''
     = [(20, fd (-250) (7 / 5)), (30, fd 180 (14 / 5)), (25, fd (-120) (11 / 6))]"
  "over_lines sample_odds (as_written ''stephen curry'') ''player_rebounds_alt'' = []"
  "over_lines sample_odds (as_written ''stephen curry'') ''player_rebounds''
     = [(8.5, fd 240 (17 / 5)), (6.5, fd (-115) (43 / 23))]"
  by (simp_all add: over_lines_def sample_odds_def as_written_def)

lemma sample_markets_for:
  "stat_to_markets ''points'' = (Some ''player_points'', Some ''player_points_alt'')"
  "stat_to_markets ''rebounds'' = (Some ''player_rebounds'', Some ''player_rebounds_alt'')"
  by (simp_all add: stat_to_markets_def MARKET_FOR_STAT_def)

lemma sample_registered: "registered sample_odds sample_markets"
  by (simp add: registered_def sample_odds_def sample_markets_def)

lemma sample_returned:
  "''player_points_alt'' \<in> sample_markets" "''player_rebounds'' \<in> sample_markets"
  by (simp_all add: sample_markets_def)

text \<open>
  C9, as stated, fails. The player's only alternate over line is at 24.5 points, and the
  alternate market was returned: the selection carries that line's price under the
  alternate market, but the point 24, which is the point of no offered line.
\<close>

theorem C9_half_point_counterexample:
  "half_alt_odds = [((''lebron james'', ''player_points_alt'', 245 / 10, ''over''), fd (-110) (21 / 11))]
   \<and> ''player_points_alt'' \<in> sample_markets
   \<and> pick_highest_alt_or_best_standard as_written ''lebron james'' ''points'' 25 half_alt_odds
         sample_markets
       = Some \<lparr>point = 24, price = fd (-110) (21 / 11), used_market = ''player_points_alt''\<rparr>
   \<and> (24 :: rat) \<noteq> 245 / 10"
proof -
  have l: "over_lines half_alt_odds (as_written ''lebron james'') ''player_points_alt''
     = [(245 / 10, fd (-110) (21 / 11))]"
    by (simp add: over_lines_def half_alt_odds_def as_written_def)
  have f: "\<lfloor>49 / 2 :: rat\<rfloor> = 24" by (rule floor_unique) simp_all
  have p: "pick_highest_alt_or_best_standard as_written ''lebron james'' ''points'' 25 half_alt_odds
         sample_markets
       = Some \<lparr>point = 24, price = fd (-110) (21 / 11), used_market = ''player_points_alt''\<rparr>"
    using pick_alt [where nrm = as_written and player = "''lebron james''" and tbl = half_alt_odds
        and threshold = 25, OF sample_markets_for(1) sample_returned(1)]
    by (simp add: l py_int_def f)
  have h: "half_alt_odds
      = [((''lebron james'', ''player_points_alt'', 245 / 10, ''over''), fd (-110) (21 / 11))]"
    by (simp add: half_alt_odds_def)
  have n: "(24 :: rat) \<noteq> 245 / 10" by simp
  from h sample_returned(1) p n show ?thesis by blast
qed

text \<open>
  C9, amended. For a stat label that has markets: when the alternate market is among the
  returned markets and the lookup holds an over line of it for the player, the selection
  carries the price and the market of the alternate line with the highest point, and as
  its point that line's point rounded towards zero to a whole number, which is the
  line's own point when that is whole. Only when there is no such alternate line, the
  standard market is among the returned markets and the lookup holds a standard over line
  for the player, the selection is a standard line at the least distance from the target
  \<open>threshold - 1/2\<close>, and of two lines at that distance the one at or below the target.
  A lookup and a market set that come from one fetch are \<open>registered\<close>, and then a
  market with a line in the lookup is among the returned ones. Lines are read from the
  lookup itself, not through the selection's own comprehension.
\<close>

theorem C9_odds_line_selection:
  assumes "stat_to_markets stat_label = (Some sk, Some ak)"
  shows "(ak \<in> returned \<and> (\<exists>pt val. ((nrm player, ak, pt, ''over''), val) \<in> set tbl) \<longrightarrow>
           (\<exists>pt val. ((nrm player, ak, pt, ''over''), val) \<in> set tbl
              \<and> (\<forall>p v. ((nrm player, ak, p, ''over''), v) \<in> set tbl \<longrightarrow> p \<le> pt)
              \<and> pick_highest_alt_or_best_standard nrm player stat_label threshold tbl returned
                  = Some \<lparr>point = of_int (if 0 \<le> pt then \<lfloor>pt\<rfloor> else \<lceil>pt\<rceil>), price = val,
                          used_market = ak\<rparr>
              \<and> (pt \<in> \<int> \<longrightarrow>
                   pick_highest_alt_or_best_standard nrm player stat_label threshold tbl returned
                     = Some \<lparr>point = pt, price = val, used_market = ak\<rparr>)))
       \<and> ((ak \<notin> returned \<or> \<not> (\<exists>pt val. ((nrm player, ak, pt, ''over''), val) \<in> set tbl))
            \<and> sk \<in> returned \<and> (\<exists>pt val. ((nrm player, sk, pt, ''over''), val) \<in> set tbl) \<longrightarrow>
           (\<exists>pt val. ((nrm player, sk, pt, ''over''), val) \<in> set tbl
              \<and> (\<forall>p v. ((nrm player, sk, p, ''over''), v) \<in> set tbl \<longrightarrow>
                    \<bar>pt - (of_int threshold - 1 / 2)\<bar> \<le> \<bar>p - (of_int threshold - 1 / 2)\<bar>
                    \<and> (\<bar>p - (of_int threshold - 1 / 2)\<bar> = \<bar>pt - (of_int threshold - 1 / 2)\<bar>
                         \<and> p \<le> of_int threshold - 1 / 2
                       \<longrightarrow> pt \<le> of_int threshold - 1 / 2))
              \<and> pick_highest_alt_or_best_standard nrm player stat_label threshold tbl returned
                  = Some \<lparr>point = pt, price = val, used_market = sk\<rparr>))
       \<and> (registered tbl returned \<longrightarrow>
            ((\<exists>pt val. ((nrm player, ak, pt, ''over''), val) \<in> set tbl) \<longrightarrow> ak \<in> returned)
            \<and> ((\<exists>pt val. ((nrm player, sk, pt, ''over''), val) \<in> set tbl) \<longrightarrow> sk \<in> returned))"
proof (intro conjI impI)
  assume a: "ak \<in> returned \<and> (\<exists>pt val. ((nrm player, ak, pt, ''over''), val) \<in> set tbl)"
  then have ret: "ak \<in> returned" and ne: "over_lines tbl (nrm player) ak \<noteq> []"
    by (simp_all add: over_lines_empty)
  define y where "y = hd (sort_key (\<lambda>x. - fst x) (over_lines tbl (nrm player) ak))"
  have y: "y \<in> set (over_lines tbl (nrm player) ak)"
    and top: "\<forall>x \<in> set (over_lines tbl (nrm player) ak). - fst y \<le> - fst x"
    using hd_sort_key_least [OF ne, of "\<lambda>x. - fst x"] unfolding y_def by simp_all
  have p: "pick_highest_alt_or_best_standard nrm player stat_label threshold tbl returned
            = Some \<lparr>point = of_int (if 0 \<le> fst y then \<lfloor>fst y\<rfloor> else \<lceil>fst y\<rceil>), price = snd y,
                    used_market = ak\<rparr>"
    using pick_alt [where nrm = nrm and player = player, OF assms ret ne]
    unfolding y_def py_int_def by simp
  have m: "((nrm player, ak, fst y, ''over''), snd y) \<in> set tbl"
    using y over_lines_iff [of "fst y" "snd y" tbl "nrm player" ak] by simp
  have hi: "\<forall>p v. ((nrm player, ak, p, ''over''), v) \<in> set tbl \<longrightarrow> p \<le> fst y"
  proof (intro allI impI)
    fix p v assume "((nrm player, ak, p, ''over''), v) \<in> set tbl"
    then have "(p, v) \<in> set (over_lines tbl (nrm player) ak)" by (simp add: over_lines_iff)
    with top have "- fst y \<le> - fst (p, v)" by blast
    then show "p \<le> fst y" by simp
  qed
  have w: "fst y \<in> \<int> \<longrightarrow>
      pick_highest_alt_or_best_standard nrm player stat_label threshold tbl returned
        = Some \<lparr>point = fst y, price = snd y, used_market = ak\<rparr>"
  proof
    assume "fst y \<in> \<int>"
    then have "of_int (py_int (fst y)) = fst y" by (rule py_int_whole)
    then have "(of_int (if 0 \<le> fst y then \<lfloor>fst y\<rfloor> else \<lceil>fst y\<rceil>) :: rat) = fst y"
      by (simp add: py_int_def)
    with p show "pick_highest_alt_or_best_standard nrm player stat_label threshold tbl returned
        = Some \<lparr>point = fst y, price = snd y, used_market = ak\<rparr>" by simp
  qed
  from m hi p w
  show "\<exists>pt val. ((nrm player, ak, pt, ''over''), val) \<in> set tbl
              \<and> (\<forall>p v. ((nrm player, ak, p, ''over''), v) \<in> set tbl \<longrightarrow> p \<le> pt)
              \<and> pick_highest_alt_or_best_standard nrm player stat_label threshold tbl returned
                  = Some \<lparr>point = of_int (if 0 \<le> pt then \<lfloor>pt\<rfloor> else \<lceil>pt\<rceil>), price = val,
                          used_market = ak\<rparr>
              \<and> (pt \<in> \<int> \<longrightarrow>
                   pick_highest_alt_or_best_standard nrm player stat_label threshold tbl returned
                     = Some \<lparr>point = pt, price = val, used_market = ak\<rparr>)"
    by blast
next
  assume a: "(ak \<notin> returned \<or> \<not> (\<exists>pt val. ((nrm player, ak, pt, ''over''), val) \<in> set tbl))
            \<and> sk \<in> returned \<and> (\<exists>pt val. ((nrm player, sk, pt, ''over''), val) \<in> set tbl)"
  then have noalt: "ak \<notin> returned \<or> over_lines tbl (nrm player) ak = []"
    and ret: "sk \<in> returned" and ne: "over_lines tbl (nrm player) sk \<noteq> []"
    using over_lines_empty [of tbl "nrm player" ak] over_lines_empty [of tbl "nrm player" sk]
    by auto
  define T where "T = (of_int threshold - 1 / 2 :: rat)"
  define k where "k = (\<lambda>x :: rat \<times> quote. (\<bar>fst x - T\<bar>, if fst x \<le> T then 0 else (1::nat)))"
  define y where "y = hd (sort_key k (over_lines tbl (nrm player) sk))"
  have y: "y \<in> set (over_lines tbl (nrm player) sk)"
    and least: "\<forall>x \<in> set (over_lines tbl (nrm player) sk). k y \<le> k x"
    using hd_sort_key_least [OF ne, of k] unfolding y_def by simp_all
  have p: "pick_highest_alt_or_best_standard nrm player stat_label threshold tbl returned
            = Some \<lparr>point = fst y, price = snd y, used_market = sk\<rparr>"
    unfolding y_def k_def T_def
    using pick_std [where nrm = nrm and player = player, OF assms noalt ret ne]
    by (simp add: threshold_to_over_point_def)
  have m: "((nrm player, sk, fst y, ''over''), snd y) \<in> set tbl"
    using y over_lines_iff [of "fst y" "snd y" tbl "nrm player" sk] by simp
  have near: "\<forall>p v. ((nrm player, sk, p, ''over''), v) \<in> set tbl \<longrightarrow>
      \<bar>fst y - T\<bar> \<le> \<bar>p - T\<bar> \<and> (\<bar>p - T\<bar> = \<bar>fst y - T\<bar> \<and> p \<le> T \<longrightarrow> fst y \<le> T)"
  proof (intro allI impI conjI)
    fix p v assume "((nrm player, sk, p, ''over''), v) \<in> set tbl"
    then have "(p, v) \<in> set (over_lines tbl (nrm player) sk)" by (simp add: over_lines_iff)
    with least have le: "k y \<le> k (p, v)" by blast
    then show "\<bar>fst y - T\<bar> \<le> \<bar>p - T\<bar>" unfolding k_def by (auto split: if_splits)
    assume "\<bar>p - T\<bar> = \<bar>fst y - T\<bar> \<and> p \<le> T"
    with le show "fst y \<le> T" unfolding k_def by (auto split: if_splits)
  qed
  from m near p
  show "\<exists>pt val. ((nrm player, sk, pt, ''over''), val) \<in> set tbl
              \<and> (\<forall>p v. ((nrm player, sk, p, ''over''), v) \<in> set tbl \<longrightarrow>
                    \<bar>pt - (of_int threshold - 1 / 2)\<bar> \<le> \<bar>p - (of_int threshold - 1 / 2)\<bar>
                    \<and> (\<bar>p - (of_int threshold - 1 / 2)\<bar> = \<bar>pt - (of_int threshold - 1 / 2)\<bar>
                         \<and> p \<le> of_int threshold - 1 / 2
                       \<longrightarrow> pt \<le> of_int threshold - 1 / 2))
              \<and> pick_highest_alt_or_best_standard nrm player stat_label threshold tbl returned
                  = Some \<lparr>point = pt, price = val, used_market = sk\<rparr>"
    unfolding T_def by blast
next
  assume "registered tbl returned"
    and "\<exists>pt val. ((nrm player, ak, pt, ''over''), val) \<in> set tbl"
  then show "ak \<in> returned"
    using registered_over_lines [of tbl returned "nrm player" ak] by (simp add: over_lines_empty)
next
  assume "registered tbl returned"
    and "\<exists>pt val. ((nrm player, sk, pt, ''over''), val) \<in> set tbl"
  then show "sk \<in> returned"
    using registered_over_lines [of tbl returned "nrm player" sk] by (simp add: over_lines_empty)
qed

lemma sample_members:
  "((as_written ''lebron james'', ''player_points_alt'', 30, ''over''), fd 180 (14 / 5)) \<in> set sample_odds"
  "((as_written ''stephen curry'', ''player_rebounds'', 65 / 10, ''over''), fd (-115) (43 / 23))
     \<in> set sample_odds"
  by (simp_all add: sample_odds_def as_written_def)

theorem C9_odds_line_selection_witness:
  "stat_to_markets ''points'' = (Some ''player_points'', Some ''player_points_alt'')
   \<and> stat_to_markets ''rebounds'' = (Some ''player_rebounds'', Some ''player_rebounds_alt'')
   \<and> registered sample_odds sample_markets
   \<and> ''player_points_alt'' \<in> sample_markets
   \<and> ((as_written ''lebron james'', ''player_points_alt'', 30, ''over''), fd 180 (14 / 5))
        \<in> set sample_odds
   \<and> pick_highest_alt_or_best_standard as_written ''lebron james'' ''points'' 25 sample_odds
         sample_markets
       = Some \<lparr>point = 30, price = fd 180 (14 / 5), used_market = ''player_points_alt''\<rparr>
   \<and> over_lines sample_odds (as_written ''stephen curry'') ''player_rebounds_alt'' = []
   \<and> ''player_rebounds'' \<in> sample_markets
   \<and> ((as_written ''stephen curry'', ''player_rebounds'', 65 / 10, ''over''), fd (-115) (43 / 23))
        \<in> set sample_odds
   \<and> pick_highest_alt_or_best_standard as_written ''stephen curry'' ''rebounds'' 8 sample_odds
         sample_markets
       = Some \<lparr>point = 65 / 10, price = fd (-115) (43 / 23), used_market = ''player_rebounds''\<rparr>"
proof -
  note t = C9_odds_line_selection [where nrm = as_written and tbl = sample_odds
      and returned = sample_markets]
  have ex1: "\<exists>pt val. ((as_written ''lebron james'', ''player_points_alt'', pt, ''over''), val)
      \<in> set sample_odds"
    using sample_members(1) by blast
  from t [where player = "''lebron james''" and threshold = 25, OF sample_markets_for(1)]
    sample_returned(1) ex1
  obtain pt val where
    m: "(pt, val) \<in> set (over_lines sample_odds (as_written ''lebron james'') ''player_points_alt'')"
    and hi: "\<forall>p v. (p, v) \<in> set (over_lines sample_odds (as_written ''lebron james'') ''player_points_alt'')
        \<longrightarrow> p \<le> pt"
    and p: "pick_highest_alt_or_best_standard as_written ''lebron james'' ''points'' 25 sample_odds
         sample_markets
       = Some \<lparr>point = of_int (if 0 \<le> pt then \<lfloor>pt\<rfloor> else \<lceil>pt\<rceil>), price = val,
               used_market = ''player_points_alt''\<rparr>"
    unfolding over_lines_iff by blast
  have "(30, fd 180 (14 / 5))
      \<in> set (over_lines sample_odds (as_written ''lebron james'') ''player_points_alt'')"
    by (simp add: sample_lines)
  with hi have "30 \<le> pt" by blast
  with m have "pt = 30 \<and> val = fd 180 (14 / 5)"
    unfolding sample_lines by auto
  with p have a: "pick_highest_alt_or_best_standard as_written ''lebron james'' ''points'' 25 sample_odds
         sample_markets
       = Some \<lparr>point = 30, price = fd 180 (14 / 5), used_market = ''player_points_alt''\<rparr>"
    by simp
  have no: "\<not> (\<exists>pt val. ((as_written ''stephen curry'', ''player_rebounds_alt'', pt, ''over''), val)
      \<in> set sample_odds)"
    using over_lines_empty [of sample_odds "as_written ''stephen curry''" "''player_rebounds_alt''"]
    by (simp add: sample_lines)
  have ex2: "\<exists>pt val. ((as_written ''stephen curry'', ''player_rebounds'', pt, ''over''), val)
      \<in> set sample_odds"
    using sample_members(2) by blast
  from t [where player = "''stephen curry''" and threshold = 8, OF sample_markets_for(2)]
    sample_returned(2) no ex2
  obtain pt' val' where
    m': "(pt', val') \<in> set (over_lines sample_odds (as_written ''stephen curry'') ''player_rebounds'')"
    and near: "\<forall>p v. (p, v) \<in> set (over_lines sample_odds (as_written ''stephen curry'') ''player_rebounds'')
        \<longrightarrow> \<bar>pt' - (of_int 8 - 1 / 2)\<bar> \<le> \<bar>p - (of_int 8 - 1 / 2)\<bar>
            \<and> (\<bar>p - (of_int 8 - 1 / 2)\<bar> = \<bar>pt' - (of_int 8 - 1 / 2)\<bar> \<and> p \<le> of_int 8 - 1 / 2
               \<longrightarrow> pt' \<le> of_int 8 - 1 / 2)"
    and p': "pick_highest_alt_or_best_standard as_written ''stephen curry'' ''rebounds'' 8 sample_odds
         sample_markets
       = Some \<lparr>point = pt', price = val', used_market = ''player_rebounds''\<rparr>"
    unfolding over_lines_iff by blast
  have "(65 / 10, fd (-115) (43 / 23))
      \<in> set (over_lines sample_odds (as_written ''stephen curry'') ''player_rebounds'')"
    by (simp add: sample_lines)
  with near have "\<bar>65 / 10 - (of_int 8 - 1 / 2)\<bar> = \<bar>pt' - (of_int 8 - 1 / 2)\<bar>
      \<and> (65 / 10 :: rat) \<le> of_int 8 - 1 / 2 \<longrightarrow> pt' \<le> of_int 8 - 1 / 2"
    by blast
  with m' have "pt' = 65 / 10 \<and> val' = fd (-115) (43 / 23)"
    unfolding sample_lines by auto
  with p' have b: "pick_highest_alt_or_best_standard as_written ''stephen curry'' ''rebounds'' 8
         sample_odds sample_markets
       = Some \<lparr>point = 65 / 10, price = fd (-115) (43 / 23), used_market = ''player_rebounds''\<rparr>"
    by simp
  from a b sample_markets_for sample_registered sample_returned sample_members sample_lines(2)
  show ?thesis by blast
qed

end
